theory Spec2Isabelle
  imports Main "HOL-Library.Sublist"
begin

section \<open>The TDMS batch converter (batches.py)\<close>

text \<open>
  A shallow embedding of \<^verbatim>\<open>batches.py\<close>: discovery (\<^verbatim>\<open>find_tdms_files\<close>),
  output path construction (\<^verbatim>\<open>construct_destination_file_path\<close>), single-file
  conversion with its chunked writer (\<^verbatim>\<open>convert_tdms_file\<close>), the batch loop
  (\<^verbatim>\<open>batch_convert_tdms_files\<close>) and the entry point (\<^verbatim>\<open>main\<close>).

  The script's collaborators (pathlib, nptdms, numpy, pandas) are modelled by what the
  script uses of them. Their results that depend on the outside world (what is on disk,
  what a TDMS file holds, whether a write fails) are fields of an environment record;
  an exception is a value of type \<open>exn\<close>, and every call that may raise returns a sum
  or an option.
\<close>

subsection \<open>Exceptions\<close>

datatype exn =
    FileNotFoundError string
  | NotADirectoryError string
  | ValueError string
  | KeyError string
  | OSError string

text \<open>\<^verbatim>\<open>str(e)\<close>: the message an exception carries.\<close>

fun exn_str :: "exn \<Rightarrow> string" where
  "exn_str (FileNotFoundError m) = m"
| "exn_str (NotADirectoryError m) = m"
| "exn_str (ValueError m) = m"
| "exn_str (KeyError m) = m"
| "exn_str (OSError m) = m"

subsection \<open>Paths (pathlib, POSIX flavour)\<close>

text \<open>
  A \<^verbatim>\<open>Path\<close> is the list of its parts, as \<^verbatim>\<open>Path.parts\<close> gives them; the
  root of an absolute path is the part \<open>''/''\<close>. Parsing a string splits it at
  \<open>/\<close> and drops empty parts and \<open>.\<close> parts, as pathlib does, so
  \<^verbatim>\<open>Path("a//b")\<close> and \<^verbatim>\<open>Path("a/./b")\<close> are \<^verbatim>\<open>Path("a/b")\<close>;
  \<open>..\<close> is kept. (The POSIX root written with exactly two slashes is not
  distinguished from \<open>/\<close>.) Two paths name the same file when their parts are equal.
\<close>

type_synonym path = "string list"

fun split_sep :: "string \<Rightarrow> string list" where
  "split_sep [] = [[]]"
| "split_sep (c # cs) =
     (if c = CHR ''/'' then [] # split_sep cs
      else (case split_sep cs of [] \<Rightarrow> [[c]] | p # ps \<Rightarrow> (c # p) # ps))"

definition rel_parts :: "string \<Rightarrow> string list" where
  "rel_parts s = filter (\<lambda>p. p \<noteq> [] \<and> p \<noteq> ''.'') (split_sep s)"

definition is_absolute_str :: "string \<Rightarrow> bool" where
  "is_absolute_str s = (case s of [] \<Rightarrow> False | c # _ \<Rightarrow> c = CHR ''/'')"

text \<open>\<^verbatim>\<open>Path(s)\<close>.\<close>

definition Path :: "string \<Rightarrow> path" where
  "Path s = (if is_absolute_str s then ''/'' # rel_parts s else rel_parts s)"

text \<open>\<^verbatim>\<open>p / s\<close>: an absolute right operand replaces the left one.\<close>

definition joinpath :: "path \<Rightarrow> string \<Rightarrow> path" where
  "joinpath p s = (if is_absolute_str s then Path s else p @ rel_parts s)"

definition path_parent :: "path \<Rightarrow> path" where
  "path_parent p = (if p = [] \<or> p = [''/''] then p else butlast p)"

definition path_name :: "path \<Rightarrow> string" where
  "path_name p = (if p = [] \<or> p = [''/''] then [] else last p)"

text \<open>\<^verbatim>\<open>name.rfind('.')\<close>: the index of the last dot, if any.\<close>

fun rfind_dot :: "string \<Rightarrow> nat option" where
  "rfind_dot [] = None"
| "rfind_dot (c # cs) =
     (case rfind_dot cs of
        Some i \<Rightarrow> Some (Suc i)
      | None \<Rightarrow> (if c = CHR ''.'' then Some 0 else None))"

text \<open>
  \<^verbatim>\<open>Path.stem\<close>: the name without its last suffix; a name whose only dot is the
  first or the last character has no suffix.
\<close>

definition path_stem :: "path \<Rightarrow> string" where
  "path_stem p =
     (let name = path_name p in
      case rfind_dot name of
        None \<Rightarrow> name
      | Some i \<Rightarrow> (if 0 < i \<and> i < length name - 1 then take i name else name))"

fun join_parts :: "string list \<Rightarrow> string" where
  "join_parts [] = []"
| "join_parts [p] = p"
| "join_parts (p # q # ps) = p @ ''/'' @ join_parts (q # ps)"

text \<open>\<^verbatim>\<open>str(p)\<close>.\<close>

definition path_str :: "path \<Rightarrow> string" where
  "path_str p =
     (case p of
        [] \<Rightarrow> ''.''
      | r # ps \<Rightarrow> (if r = ''/'' then ''/'' @ join_parts ps else join_parts p))"

text \<open>\<^verbatim>\<open>construct_destination_file_path\<close> (lines 54-72).\<close>

definition construct_destination_file_path :: "path \<Rightarrow> string \<Rightarrow> string \<Rightarrow> path" where
  "construct_destination_file_path source_file_path group_name destination_file_format =
     (let destination_dir = path_parent source_file_path;
          destination_file_name =
            path_stem source_file_path @ ''_'' @ group_name @ ''.'' @ destination_file_format
      in joinpath destination_dir destination_file_name)"

subsection \<open>Groups and tables (nptdms, pandas)\<close>

text \<open>
  A TDMS group holds named channels, each a sequence of samples (opaque values, here
  integers). \<^verbatim>\<open>group.as_dataframe()\<close> builds one column per channel over the
  default index \<open>0, 1, ..., n - 1\<close>, where \<open>n\<close> is the length of the longest channel;
  a shorter channel is padded with NaN (\<open>None\<close>). Reading the channel data may raise
  (a corrupt segment): \<open>unreadable\<close> then holds the exception.
\<close>

type_synonym cell = "int option"

record tdms_group =
  group_name :: string
  channels :: "(string \<times> int list) list"
  unreadable :: "exn option"

text \<open>A DataFrame: its column labels and its rows, each an index label with its cells.\<close>

record dataframe =
  columns :: "string list"
  rows :: "(nat \<times> cell list) list"

definition index :: "dataframe \<Rightarrow> nat list" where
  "index df = map fst (rows df)"

definition frame_of_channels :: "(string \<times> int list) list \<Rightarrow> dataframe" where
  "frame_of_channels chs =
     (let n = foldr max (map (\<lambda>ch. length (snd ch)) chs) 0 in
      \<lparr>columns = map fst chs,
       rows = map (\<lambda>i. (i, map (\<lambda>ch. if i < length (snd ch) then Some (snd ch ! i) else None) chs))
                [0..<n]\<rparr>)"

definition as_dataframe :: "tdms_group \<Rightarrow> exn + dataframe" where
  "as_dataframe g =
     (case unreadable g of
        Some e \<Rightarrow> Inl e
      | None \<Rightarrow> Inr (frame_of_channels (channels g)))"

text \<open>\<^verbatim>\<open>DataFrame.empty\<close>: true when any axis has length 0.\<close>

definition df_empty :: "dataframe \<Rightarrow> bool" where
  "df_empty df = (rows df = [] \<or> columns df = [])"

text \<open>
  \<^verbatim>\<open>df.loc[labels]\<close>: the rows whose index label is in \<open>labels\<close>, in the order of
  \<open>labels\<close> (every row carrying the label, when a label occurs more than once in the
  index); a label that is not in the index raises KeyError.
\<close>

definition select_rows :: "dataframe \<Rightarrow> nat list \<Rightarrow> (nat \<times> cell list) list" where
  "select_rows df labels = concat (map (\<lambda>l. filter (\<lambda>r. fst r = l) (rows df)) labels)"

definition loc :: "dataframe \<Rightarrow> nat list \<Rightarrow> exn + dataframe" where
  "loc df labels =
     (if list_ex (\<lambda>l. l \<notin> set (index df)) labels then Inl (KeyError ''label not in index'')
      else Inr \<lparr>columns = columns df, rows = select_rows df labels\<rparr>)"

subsection \<open>numpy.array\_split\<close>

text \<open>
  \<^verbatim>\<open>np.array_split(ary, Nsections)\<close> for an integer \<open>Nsections\<close>: the first
  \<open>Ntotal mod Nsections\<close> sections hold \<open>Ntotal div Nsections + 1\<close> elements, the
  others \<open>Ntotal div Nsections\<close>; the division points are the running sums of the
  section sizes and section \<open>i\<close> is the slice between points \<open>i\<close> and \<open>i + 1\<close>.
\<close>

fun cumsum_from :: "nat \<Rightarrow> nat list \<Rightarrow> nat list" where
  "cumsum_from acc [] = []"
| "cumsum_from acc (x # xs) = (acc + x) # cumsum_from (acc + x) xs"

definition cumsum :: "nat list \<Rightarrow> nat list" where
  "cumsum xs = cumsum_from 0 xs"

text \<open>\<^verbatim>\<open>ary[st:end]\<close> for \<open>0 \<le> st\<close>, \<open>0 \<le> end\<close>.\<close>

definition slice :: "'a list \<Rightarrow> nat \<Rightarrow> nat \<Rightarrow> 'a list" where
  "slice ary st en = take (en - st) (drop st ary)"

definition section_sizes :: "nat \<Rightarrow> nat \<Rightarrow> nat list" where
  "section_sizes Ntotal Nsections =
     (let Neach_section = Ntotal div Nsections; extras = Ntotal mod Nsections in
      0 # replicate extras (Neach_section + 1) @ replicate (Nsections - extras) Neach_section)"

definition array_split :: "'a list \<Rightarrow> nat \<Rightarrow> exn + 'a list list" where
  "array_split ary Nsections =
     (if Nsections = 0 then Inl (ValueError ''number sections must be larger than 0.'')
      else
        (let div_points = cumsum (section_sizes (length ary) Nsections) in
         Inr (map (\<lambda>i. slice ary (div_points ! i) (div_points ! (i + 1))) [0..<Nsections])))"

subsection \<open>The world: files on disk and the console\<close>

text \<open>
  A CSV file is the list of its lines; a line is the header (the column labels) or a data
  row (index label and cells). How a cell is rendered as text is pandas' business.
\<close>

datatype csv_line = HeaderLine "string list" | DataLine nat "cell list"

text \<open>
  The console: one constructor per \<^verbatim>\<open>print\<close> call of the script, with the values
  it formats (the eight lines of the usage message are the one event \<open>UsageLines\<close>).
\<close>

datatype event =
    ProcessingLine string
  | ConvertingGroupLine nat nat string
  | EmptyGroupWarning string
  | CreatedLine string
  | ErrorLine string
  | BannerLine
  | RuleLine
  | SearchingLine string
  | NoFilesFoundLine
  | FoundLine nat
  | BlankLine
  | ConvertingFileLine nat nat string
  | SuccessLine nat
  | FailedLine string
  | SummaryTitleLine
  | TotalFilesLine nat
  | SuccessfulLine nat
  | FailedCountLine nat
  | TotalCsvLine nat
  | AllConvertedLine
  | PartialLine nat nat
  | NoneConvertedLine
  | FatalLine string
  | UsageLines
  | NotExistLine string
  | NotDirLine string

text \<open>
  The world a run changes: the files on disk, the lines printed so far, and the number of
  \<^verbatim>\<open>to_csv\<close> calls made so far (the environment says which of them fail).
\<close>

record world =
  disk :: "path \<rightharpoonup> csv_line list"
  console :: "event list"
  writes :: nat

definition say :: "event \<Rightarrow> world \<Rightarrow> world" where
  "say e w = w\<lparr>console := console w @ [e]\<rparr>"

text \<open>A directory tree, as discovery sees it: a file, or a directory with its entries.\<close>

datatype node = File | Dir "(string \<times> node) list"

text \<open>
  The environment of a run: what \<^verbatim>\<open>stat\<close> finds at a path string, what
  \<^verbatim>\<open>TdmsFile.open(path)\<close> followed by \<^verbatim>\<open>groups()\<close> gives (an exception for a
  file nptdms cannot read), and whether the \<open>k\<close>-th \<^verbatim>\<open>to_csv\<close> call of the run
  raises (disk full, no permission, missing directory), counting from 0.
\<close>

record env =
  stat :: "string \<Rightarrow> node option"
  tdms_open :: "path \<Rightarrow> exn + tdms_group list"
  write_fault :: "nat \<Rightarrow> exn option"

subsection \<open>The chunked writer (lines 117-137)\<close>

text \<open>
  \<^verbatim>\<open>DataFrame.to_csv(path, header, mode, index=True)\<close>: the lines of the frame, with
  the header line first unless \<^verbatim>\<open>header=None\<close>; mode \<open>w\<close> replaces the file,
  mode \<open>a\<close> appends to it (creating it when missing). A call that raises writes nothing.
\<close>

datatype write_mode = ModeW | ModeA

definition csv_lines :: "dataframe \<Rightarrow> bool \<Rightarrow> csv_line list" where
  "csv_lines df header =
     (if header then [HeaderLine (columns df)] else []) @ map (\<lambda>r. DataLine (fst r) (snd r)) (rows df)"

definition to_csv :: "env \<Rightarrow> dataframe \<Rightarrow> path \<Rightarrow> bool \<Rightarrow> write_mode \<Rightarrow> world \<Rightarrow> exn option \<times> world" where
  "to_csv ev df p header mode w =
     (case write_fault ev (writes w) of
        Some e \<Rightarrow> (Some e, w\<lparr>writes := Suc (writes w)\<rparr>)
      | None \<Rightarrow>
          (let old = (case mode of ModeW \<Rightarrow> [] | ModeA \<Rightarrow> (case disk w p of None \<Rightarrow> [] | Some ls \<Rightarrow> ls))
           in (None, w\<lparr>disk := (disk w)(p \<mapsto> old @ csv_lines df header),
                       writes := Suc (writes w)\<rparr>)))"

text \<open>The body of the loop over \<^verbatim>\<open>enumerate(segments)\<close>, for one segment.\<close>

definition write_segment :: "env \<Rightarrow> path \<Rightarrow> dataframe \<Rightarrow> nat \<Rightarrow> nat list \<Rightarrow> world \<Rightarrow> exn option \<times> world" where
  "write_segment ev csv_file_path group_df count chunk w =
     (case loc group_df chunk of
        Inl e \<Rightarrow> (Some e, w)
      | Inr part \<Rightarrow>
          (if count = 0 then to_csv ev part csv_file_path True ModeW w
           else to_csv ev part csv_file_path False ModeA w))"

fun write_segments :: "env \<Rightarrow> path \<Rightarrow> dataframe \<Rightarrow> nat \<Rightarrow> nat list list \<Rightarrow> world \<Rightarrow> exn option \<times> world" where
  "write_segments ev csv_file_path group_df count [] w = (None, w)"
| "write_segments ev csv_file_path group_df count (chunk # segments) w =
     (case write_segment ev csv_file_path group_df count chunk w of
        (Some e, w') \<Rightarrow> (Some e, w')
      | (None, w') \<Rightarrow> write_segments ev csv_file_path group_df (Suc count) segments w')"

subsection \<open>Single-file conversion (lines 75-147)\<close>

text \<open>
  The body of the loop over the groups (lines 103-140), for one group: the result is the
  exception raised, if any, with \<^verbatim>\<open>created_files\<close> and the world as they are at
  that moment.
\<close>

definition convert_group ::
  "env \<Rightarrow> path \<Rightarrow> nat \<Rightarrow> nat \<Rightarrow> tdms_group \<Rightarrow> string list \<Rightarrow> world \<Rightarrow> exn option \<times> string list \<times> world" where
  "convert_group ev source_file_path group_idx n_groups g created_files w =
     (let w1 = say (ConvertingGroupLine group_idx n_groups (group_name g)) w in
      case as_dataframe g of
        Inl e \<Rightarrow> (Some e, created_files, w1)
      | Inr group_df \<Rightarrow>
          (if df_empty group_df
           then (None, created_files, say (EmptyGroupWarning (group_name g)) w1)
           else
             (let csv_file_path =
                    construct_destination_file_path source_file_path (group_name g) ''csv'' in
              case array_split (index group_df) 101 of
                Inl e \<Rightarrow> (Some e, created_files, w1)
              | Inr segments \<Rightarrow>
                  (case write_segments ev csv_file_path group_df 0 segments w1 of
                     (Some e, w2) \<Rightarrow> (Some e, created_files, w2)
                   | (None, w2) \<Rightarrow>
                       (None, created_files @ [path_str csv_file_path],
                        say (CreatedLine (path_name csv_file_path)) w2)))))"

fun convert_groups ::
  "env \<Rightarrow> path \<Rightarrow> nat \<Rightarrow> nat \<Rightarrow> tdms_group list \<Rightarrow> string list \<Rightarrow> world \<Rightarrow> exn option \<times> string list \<times> world" where
  "convert_groups ev source_file_path group_idx n_groups [] created_files w = (None, created_files, w)"
| "convert_groups ev source_file_path group_idx n_groups (g # groups) created_files w =
     (case convert_group ev source_file_path group_idx n_groups g created_files w of
        (Some e, created_files', w') \<Rightarrow> (Some e, created_files', w')
      | (None, created_files', w') \<Rightarrow>
          convert_groups ev source_file_path (Suc group_idx) n_groups groups created_files' w')"

text \<open>
  The \<^verbatim>\<open>try\<close> block (lines 94-142): it returns a result or raises, and either way
  leaves \<^verbatim>\<open>created_files\<close> and the world as they are at that moment.
\<close>

datatype 'a outcome = Raised exn | Returned 'a

definition convert_body ::
  "env \<Rightarrow> path \<Rightarrow> world \<Rightarrow> (bool \<times> string \<times> string list) outcome \<times> string list \<times> world" where
  "convert_body ev source_file_path w =
     (let w0 = say (ProcessingLine (path_name source_file_path)) w in
      case tdms_open ev source_file_path of
        Inl e \<Rightarrow> (Raised e, [], w0)
      | Inr groups \<Rightarrow>
          (if groups = [] then (Returned (False, ''No groups found in TDMS file'', []), [], w0)
           else
             (case convert_groups ev source_file_path 1 (length groups) groups [] w0 of
                (Some e, created_files, w1) \<Rightarrow> (Raised e, created_files, w1)
              | (None, created_files, w1) \<Rightarrow> (Returned (True, [], created_files), created_files, w1))))"

text \<open>\<^verbatim>\<open>convert_tdms_file\<close>: the \<^verbatim>\<open>try\<close> block with its handler (lines 144-147).\<close>

definition convert_tdms_file ::
  "env \<Rightarrow> path \<Rightarrow> world \<Rightarrow> (bool \<times> string \<times> string list) \<times> world" where
  "convert_tdms_file ev source_file_path w =
     (case convert_body ev source_file_path w of
        (Returned r, created_files, w1) \<Rightarrow> (r, w1)
      | (Raised e, created_files, w1) \<Rightarrow>
          (let error_msg = ''Error converting '' @ path_name source_file_path @ '': '' @ exn_str e
           in ((False, error_msg, created_files), say (ErrorLine error_msg) w1)))"

subsection \<open>Discovery (lines 30-51)\<close>

text \<open>
  \<^verbatim>\<open>root_path.rglob("*.tdms")\<close>: pathlib visits the root and every directory below it
  (a directory before its subdirectories) and yields, for each, the entries whose name
  matches the pattern. An entry is a file or a directory: \<^verbatim>\<open>rglob\<close> does not look at
  its kind. On POSIX the match is case-sensitive, and \<^verbatim>\<open>*\<close> matches any string, the
  empty one included.
\<close>

fun iterate_directories :: "path \<Rightarrow> node \<Rightarrow> (path \<times> (string \<times> node) list) list"
  and iterate_entries :: "path \<Rightarrow> (string \<times> node) list \<Rightarrow> (path \<times> (string \<times> node) list) list" where
  "iterate_directories p File = []"
| "iterate_directories p (Dir es) = (p, es) # iterate_entries p es"
| "iterate_entries p [] = []"
| "iterate_entries p (e # es) = iterate_directories (p @ [fst e]) (snd e) @ iterate_entries p es"

definition fnmatch_tdms :: "string \<Rightarrow> bool" where
  "fnmatch_tdms name = suffix ''.tdms'' name"

definition select_from :: "path \<times> (string \<times> node) list \<Rightarrow> path list" where
  "select_from d = map (\<lambda>e. fst d @ [fst e]) (filter (\<lambda>e. fnmatch_tdms (fst e)) (snd d))"

definition rglob_tdms :: "path \<Rightarrow> node \<Rightarrow> path list" where
  "rglob_tdms root_path t = concat (map select_from (iterate_directories root_path t))"

definition path_exists :: "env \<Rightarrow> string \<Rightarrow> bool" where
  "path_exists ev s = (stat ev s \<noteq> None)"

definition path_is_dir :: "env \<Rightarrow> string \<Rightarrow> bool" where
  "path_is_dir ev s = (case stat ev s of Some (Dir es) \<Rightarrow> True | _ \<Rightarrow> False)"

text \<open>
  \<^verbatim>\<open>Path(root_directory).rglob("*.tdms")\<close> in the environment; on a path that is
  not a directory pathlib yields nothing.
\<close>

definition rglob :: "env \<Rightarrow> string \<Rightarrow> path list" where
  "rglob ev root_directory =
     (case stat ev root_directory of
        None \<Rightarrow> []
      | Some t \<Rightarrow> rglob_tdms (Path root_directory) t)"

definition find_tdms_files :: "env \<Rightarrow> string \<Rightarrow> exn + path list" where
  "find_tdms_files ev root_directory =
     (if \<not> path_exists ev root_directory
      then Inl (FileNotFoundError (''Directory does not exist: '' @ root_directory))
      else if \<not> path_is_dir ev root_directory
      then Inl (NotADirectoryError (''Path is not a directory: '' @ root_directory))
      else Inr (rglob ev root_directory))"

subsection \<open>The batch loop and the entry point (lines 150-239)\<close>

definition says :: "event list \<Rightarrow> world \<Rightarrow> world" where
  "says es w = fold say es w"

text \<open>
  The loop over the discovered files (lines 178-191), with its three counters
  \<^verbatim>\<open>successful_conversions\<close>, \<^verbatim>\<open>failed_conversions\<close> and
  \<^verbatim>\<open>total_csv_files_created\<close>.
\<close>

fun batch_loop ::
  "env \<Rightarrow> nat \<Rightarrow> nat \<Rightarrow> path list \<Rightarrow> nat \<times> nat \<times> nat \<Rightarrow> world \<Rightarrow> (nat \<times> nat \<times> nat) \<times> world" where
  "batch_loop ev file_idx total_files [] counters w = (counters, w)"
| "batch_loop ev file_idx total_files (tdms_file # rest)
       (successful_conversions, failed_conversions, total_csv_files_created) w =
     (let w1 = say (ConvertingFileLine file_idx total_files (path_str tdms_file)) w in
      case convert_tdms_file ev tdms_file w1 of
        ((success, error_msg, created_files), w2) \<Rightarrow>
          (if success
           then batch_loop ev (Suc file_idx) total_files rest
                  (successful_conversions + 1, failed_conversions,
                   total_csv_files_created + length created_files)
                  (say BlankLine (say (SuccessLine (length created_files)) w2))
           else batch_loop ev (Suc file_idx) total_files rest
                  (successful_conversions, failed_conversions + 1, total_csv_files_created)
                  (say BlankLine (say (FailedLine error_msg) w2))))"

text \<open>
  \<^verbatim>\<open>batch_convert_tdms_files\<close>: \<open>None\<close> when the function returns,
  \<open>Some 1\<close> for \<^verbatim>\<open>sys.exit(1)\<close> in the handler of the outer \<^verbatim>\<open>try\<close>.
\<close>

definition batch_convert_tdms_files :: "env \<Rightarrow> string \<Rightarrow> world \<Rightarrow> nat option \<times> world" where
  "batch_convert_tdms_files ev root_directory w =
     (let w0 = says [BannerLine, RuleLine, SearchingLine root_directory] w in
      case find_tdms_files ev root_directory of
        Inl e \<Rightarrow> (Some 1, say (FatalLine (exn_str e)) w0)
      | Inr tdms_files \<Rightarrow>
          (if tdms_files = [] then (None, say NoFilesFoundLine w0)
           else
             (let w1 = says [FoundLine (length tdms_files), BlankLine] w0;
                  total_files = length tdms_files
              in case batch_loop ev 1 total_files tdms_files (0, 0, 0) w1 of
                   ((successful_conversions, failed_conversions, total_csv_files_created), w2) \<Rightarrow>
                     (let w3 = says [RuleLine, SummaryTitleLine, RuleLine,
                                     TotalFilesLine total_files,
                                     SuccessfulLine successful_conversions,
                                     FailedCountLine failed_conversions,
                                     TotalCsvLine total_csv_files_created] w2
                      in (None,
                          if failed_conversions = 0 then say AllConvertedLine w3
                          else if successful_conversions > 0
                          then say (PartialLine successful_conversions failed_conversions) w3
                          else say NoneConvertedLine w3)))))"


subsection \<open>Vocabulary of the statements\<close>

text \<open>
  The lengths of the sections \<^verbatim>\<open>array_split\<close> cuts (its
  \<^verbatim>\<open>section_sizes\<close> without the leading 0), the data lines of the rows a chunk
  selects, and the lines a file holds before an append.
\<close>

definition section_lengths :: "nat \<Rightarrow> nat \<Rightarrow> nat list" where
  "section_lengths Ntotal n =
     replicate (Ntotal mod n) (Ntotal div n + 1) @ replicate (n - Ntotal mod n) (Ntotal div n)"

definition data_lines :: "dataframe \<Rightarrow> nat list \<Rightarrow> csv_line list" where
  "data_lines df chunk = map (\<lambda>r. DataLine (fst r) (snd r)) (select_rows df chunk)"

definition old_lines :: "world \<Rightarrow> path \<Rightarrow> csv_line list" where
  "old_lines w p = (case disk w p of None \<Rightarrow> [] | Some ls \<Rightarrow> ls)"

text \<open>
  For a group of a source file: its output path, the table \<^verbatim>\<open>as_dataframe\<close>
  builds from its channels, whether that table has a row, the complete CSV file of the
  table, and the file as it stands when the first \<open>k\<close> segments have been written
  (the header line and the rows of those segments).
\<close>

definition group_dest :: "path \<Rightarrow> tdms_group \<Rightarrow> path" where
  "group_dest src g = construct_destination_file_path src (group_name g) ''csv''"

definition group_frame :: "tdms_group \<Rightarrow> dataframe" where
  "group_frame g = frame_of_channels (channels g)"

definition has_rows :: "tdms_group \<Rightarrow> bool" where
  "has_rows g = (rows (group_frame g) \<noteq> [])"

definition full_csv :: "tdms_group \<Rightarrow> csv_line list" where
  "full_csv g = csv_lines (group_frame g) True"

definition partial_csv :: "tdms_group \<Rightarrow> nat \<Rightarrow> csv_line list" where
  "partial_csv g k =
     take (Suc (sum_list (take k (section_lengths (length (rows (group_frame g))) 101)))) (full_csv g)"

text \<open>
  The disk after the groups \<open>gs\<close> have been converted in order, each group with rows
  replacing the file at its output path; and the console lines of those conversions.
\<close>

fun written_disk :: "path \<Rightarrow> tdms_group list \<Rightarrow> (path \<rightharpoonup> csv_line list) \<Rightarrow> (path \<rightharpoonup> csv_line list)" where
  "written_disk src [] d = d"
| "written_disk src (g # gs) d =
     written_disk src gs (if has_rows g then d(group_dest src g \<mapsto> full_csv g) else d)"

fun group_lines :: "path \<Rightarrow> nat \<Rightarrow> nat \<Rightarrow> tdms_group list \<Rightarrow> event list" where
  "group_lines src i n [] = []"
| "group_lines src i n (g # gs) =
     [ConvertingGroupLine i n (group_name g),
      if has_rows g then CreatedLine (path_name (group_dest src g))
      else EmptyGroupWarning (group_name g)] @ group_lines src (Suc i) n gs"

text \<open>
  The per-file results of the batch loop, in order: what \<^verbatim>\<open>convert_tdms_file\<close>
  returns for each file, in the world the loop has reached by then.
\<close>

fun batch_results :: "env \<Rightarrow> nat \<Rightarrow> nat \<Rightarrow> path list \<Rightarrow> world \<Rightarrow> (bool \<times> string \<times> string list) list" where
  "batch_results ev file_idx total_files [] w = []"
| "batch_results ev file_idx total_files (tdms_file # rest) w =
     (case convert_tdms_file ev tdms_file (say (ConvertingFileLine file_idx total_files (path_str tdms_file)) w) of
        (r, w2) \<Rightarrow>
          r # batch_results ev (Suc file_idx) total_files rest
                (say BlankLine
                   (say (if fst r then SuccessLine (length (snd (snd r))) else FailedLine (fst (snd r))) w2)))"

text \<open>
  Every entry (file or directory) below a directory, with its path; the entries strictly
  below the entries of a directory; and the paths among some entries whose last part
  matches \<open>*.tdms\<close>.
\<close>

fun entries_under :: "path \<Rightarrow> node \<Rightarrow> (path \<times> node) list"
  and entries_in :: "path \<Rightarrow> (string \<times> node) list \<Rightarrow> (path \<times> node) list" where
  "entries_under p File = []"
| "entries_under p (Dir es) = entries_in p es"
| "entries_in p [] = []"
| "entries_in p (e # es) =
     (p @ [fst e], snd e) # entries_under (p @ [fst e]) (snd e) @ entries_in p es"

definition matching :: "(path \<times> node) list \<Rightarrow> path set" where
  "matching xs = fst ` {x \<in> set xs. fnmatch_tdms (last (fst x))}"

fun below :: "path \<Rightarrow> (string \<times> node) list \<Rightarrow> (path \<times> node) list" where
  "below p [] = []"
| "below p (e # es) = entries_under (p @ [fst e]) (snd e) @ below p es"

subsection \<open>Concrete inputs\<close>

text \<open>
  An environment in which nothing is on disk and no write fails, and a group with one
  channel of three samples, with the table \<^verbatim>\<open>as_dataframe\<close> builds from it.
\<close>

definition demo_env :: env where
  "demo_env = \<lparr>stat = (\<lambda>s. None), tdms_open = (\<lambda>p. Inr []), write_fault = (\<lambda>k. None)\<rparr>"

definition demo_group :: tdms_group where
  "demo_group = \<lparr>group_name = ''Voltage'', channels = [(''v'', [10, 20, 30])], unreadable = None\<rparr>"

definition demo_frame :: dataframe where
  "demo_frame = \<lparr>columns = [''v''], rows = [(0, [Some 10]), (1, [Some 20]), (2, [Some 30])]\<rparr>"

text \<open>
  A world with nothing on disk; a group without channels; a source file with a group of
  three rows and an empty group; and a source file whose two groups, of different names,
  are given the same output path by pathlib.
\<close>

definition empty_world :: world where
  "empty_world = \<lparr>disk = Map.empty, console = [], writes = 0\<rparr>"

definition empty_group :: tdms_group where
  "empty_group = \<lparr>group_name = ''Empty'', channels = [], unreadable = None\<rparr>"

definition two_group_env :: env where
  "two_group_env = \<lparr>stat = (\<lambda>s. None), tdms_open = (\<lambda>p. Inr [demo_group, empty_group]),
     write_fault = (\<lambda>k. None)\<rparr>"

definition collide_a :: tdms_group where
  "collide_a = \<lparr>group_name = ''a/b'', channels = [(''v'', [1, 2])], unreadable = None\<rparr>"

definition collide_b :: tdms_group where
  "collide_b = \<lparr>group_name = ''a//b'', channels = [(''v'', [3, 4])], unreadable = None\<rparr>"

definition collide_env :: env where
  "collide_env = \<lparr>stat = (\<lambda>s. None), tdms_open = (\<lambda>p. Inr [collide_a, collide_b]),
     write_fault = (\<lambda>k. None)\<rparr>"

text \<open>The same two groups on a disk that is full at the \<open>to_csv\<close> call number 102.\<close>

definition full_env :: env where
  "full_env = \<lparr>stat = (\<lambda>s. None), tdms_open = (\<lambda>p. Inr [collide_a, collide_b]),
     write_fault = (\<lambda>k. if k = 102 then Some (OSError ''No space left on device'') else None)\<rparr>"

text \<open>
  A source file with three groups of two rows each, on a disk that is full at the
  \<open>to_csv\<close> call number 102: the write of segment 1 of the second group.
\<close>

definition group_A :: tdms_group where
  "group_A = \<lparr>group_name = ''A'', channels = [(''v'', [1, 2])], unreadable = None\<rparr>"

definition group_B :: tdms_group where
  "group_B = \<lparr>group_name = ''B'', channels = [(''v'', [3, 4])], unreadable = None\<rparr>"

definition group_C :: tdms_group where
  "group_C = \<lparr>group_name = ''C'', channels = [(''v'', [5, 6])], unreadable = None\<rparr>"

definition three_group_env :: env where
  "three_group_env = \<lparr>stat = (\<lambda>s. None), tdms_open = (\<lambda>p. Inr [group_A, group_B, group_C]),
     write_fault = (\<lambda>k. if k = 102 then Some (OSError ''No space left on device'') else None)\<rparr>"

text \<open>
  A directory \<open>data\<close> holding a directory named \<open>run.tdms\<close>, a file
  \<open>a.tdms\<close> and a subdirectory with two more files, none of which nptdms can read;
  and a directory holding one file with the three groups above, on the disk that is full
  at call number 102.
\<close>

definition tree_env :: env where
  "tree_env = \<lparr>stat = (\<lambda>s. if s = ''data''
                               then Some (Dir [(''run.tdms'', Dir [(''notes.txt'', File)]), (''a.tdms'', File),
                                               (''sub'', Dir [(''b.tdms'', File), (''c.TDMS'', File)])])
                             else if s = ''data/a.tdms'' then Some File else None),
     tdms_open = (\<lambda>p. Inl (OSError ''not a TDMS file'')),
     write_fault = (\<lambda>k. None)\<rparr>"

definition batch_env :: env where
  "batch_env = \<lparr>stat = (\<lambda>s. if s = ''data'' then Some (Dir [(''x.tdms'', File)]) else None),
     tdms_open = (\<lambda>p. Inr [group_A, group_B, group_C]),
     write_fault = (\<lambda>k. if k = 102 then Some (OSError ''No space left on device'') else None)\<rparr>"

section \<open>Properties\<close>

subsection \<open>The index split\<close>

lemma cumsum_from_nth:
  "i < length ss \<Longrightarrow> cumsum_from a ss ! i = a + sum_list (take (Suc i) ss)"
proof (induction ss arbitrary: a i)
  case Nil then show ?case by simp
next
  case (Cons s ss)
  then show ?case by (cases i) (auto simp: add.assoc)
qed

lemma concat_slices:
  "concat (map (\<lambda>i. take (ss ! i) (drop (sum_list (take i ss)) xs)) [0..<length ss])
     = take (sum_list ss) xs"
proof (induction ss rule: rev_induct)
  case Nil then show ?case by simp
next
  case (snoc s ss)
  define F where "F = (\<lambda>i. take ((ss @ [s]) ! i) (drop (sum_list (take i (ss @ [s]))) xs))"
  define G where "G = (\<lambda>i. take (ss ! i) (drop (sum_list (take i ss)) xs))"
  have FG: "map F [0..<length ss] = map G [0..<length ss]"
    by (rule map_cong) (auto simp: F_def G_def nth_append)
  have last: "F (length ss) = take s (drop (sum_list ss) xs)"
    by (simp add: F_def)
  have "concat (map F [0..<length (ss @ [s])]) = concat (map F [0..<length ss]) @ F (length ss)"
    by simp
  also have "\<dots> = take (sum_list ss) xs @ take s (drop (sum_list ss) xs)"
    using snoc.IH by (simp only: FG last G_def)
  also have "\<dots> = take (sum_list (ss @ [s])) xs"
    by (simp add: take_add)
  finally show ?case by (simp only: F_def)
qed

lemma section_lengths_length: "0 < n \<Longrightarrow> length (section_lengths t n) = n"
  by (simp add: section_lengths_def less_imp_le)

lemma section_lengths_sum: 
  assumes n: "0 < n" shows "sum_list (section_lengths t n) = t"
proof -
  have le: "t mod n \<le> n" using n by (simp add: less_imp_le)
  have "sum_list (section_lengths t n) = (t mod n) * (t div n + 1) + (n - t mod n) * (t div n)"
    by (simp add: section_lengths_def sum_list_replicate)
  also have "\<dots> = t mod n + ((t mod n) + (n - t mod n)) * (t div n)"
    by (simp add: algebra_simps)
  also have "\<dots> = t mod n + n * (t div n)" using le by simp
  also have "\<dots> = t" by simp
  finally show ?thesis .
qed

lemma array_split_sections:
  assumes "0 < n"
  shows "array_split xs n =
     Inr (map (\<lambda>i. take (section_lengths (length xs) n ! i)
                      (drop (sum_list (take i (section_lengths (length xs) n))) xs)) [0..<n])"
proof -
  let ?ss = "section_lengths (length xs) n"
  have sec: "section_sizes (length xs) n = 0 # ?ss"
    by (simp add: section_sizes_def section_lengths_def Let_def)
  have len: "length ?ss = n" using assms by (rule section_lengths_length)
  have pt: "\<And>i. i \<le> n \<Longrightarrow> cumsum (0 # ?ss) ! i = sum_list (take i ?ss)"
  proof -
    fix i assume "i \<le> n"
    show "cumsum (0 # ?ss) ! i = sum_list (take i ?ss)"
    proof (cases i)
      case 0 then show ?thesis by (simp add: cumsum_def)
    next
      case (Suc j)
      then have "j < length ?ss" using \<open>i \<le> n\<close> len by simp
      then show ?thesis using Suc by (simp add: cumsum_def cumsum_from_nth)
    qed
  qed
  have "map (\<lambda>i. slice xs (cumsum (0 # ?ss) ! i) (cumsum (0 # ?ss) ! (i + 1))) [0..<n]
      = map (\<lambda>i. take (?ss ! i) (drop (sum_list (take i ?ss)) xs)) [0..<n]"
  proof (rule map_cong[OF refl])
    fix i assume "i \<in> set [0..<n]"
    then have i: "i < n" by simp
    have a: "cumsum (0 # ?ss) ! i = sum_list (take i ?ss)" using i pt by simp
    have b: "cumsum (0 # ?ss) ! Suc i = sum_list (take (Suc i) ?ss)" using i pt[of "Suc i"] by simp
    have c: "sum_list (take (Suc i) ?ss) = sum_list (take i ?ss) + ?ss ! i"
      using i len by (simp add: take_Suc_conv_app_nth)
    show "slice xs (cumsum (0 # ?ss) ! i) (cumsum (0 # ?ss) ! (i + 1))
        = take (?ss ! i) (drop (sum_list (take i ?ss)) xs)"
      by (simp add: slice_def a b c)
  qed
  then show ?thesis using assms by (simp add: array_split_def sec Let_def)
qed

lemma array_split_total: "0 < n \<Longrightarrow> \<exists>segs. array_split xs n = Inr segs"
  by (simp add: array_split_sections)

lemma array_split_length: "0 < n \<Longrightarrow> array_split xs n = Inr segs \<Longrightarrow> length segs = n"
  by (auto simp: array_split_sections)

lemma array_split_concat:
  assumes "0 < n" "array_split xs n = Inr segs"
  shows "concat segs = xs"
proof -
  have segs: "segs = map (\<lambda>i. take (section_lengths (length xs) n ! i)
                 (drop (sum_list (take i (section_lengths (length xs) n))) xs)) [0..<n]"
    using assms array_split_sections[of n xs] by simp
  have "concat segs = take (sum_list (section_lengths (length xs) n)) xs"
    using concat_slices[of "section_lengths (length xs) n" xs]
      section_lengths_length[OF assms(1), of "length xs"]
    by (simp add: segs)
  then show "concat segs = xs" by (simp add: section_lengths_sum[OF assms(1)])
qed

lemma take_sum_le:
  "sum_list (take i ss) + ss ! i \<le> sum_list ss" if "i < length ss" for ss :: "nat list"
proof -
  have "sum_list ss = sum_list (take (Suc i) ss) + sum_list (drop (Suc i) ss)"
    by (metis append_take_drop_id sum_list_append)
  moreover have "sum_list (take (Suc i) ss) = sum_list (take i ss) + ss ! i"
    using that by (simp add: take_Suc_conv_app_nth)
  ultimately show ?thesis by simp
qed

lemma array_split_nth_length:
  assumes "0 < n" "array_split xs n = Inr segs" "i < n"
  shows "length (segs ! i) = section_lengths (length xs) n ! i"
proof -
  let ?ss = "section_lengths (length xs) n"
  have len: "length ?ss = n" using assms(1) by (rule section_lengths_length)
  have "segs ! i = take (?ss ! i) (drop (sum_list (take i ?ss)) xs)"
    using assms array_split_sections[of n xs] by auto
  moreover have "sum_list (take i ?ss) + ?ss ! i \<le> length xs"
    using take_sum_le[of i ?ss] assms(3) len section_lengths_sum[OF assms(1), of "length xs"] by simp
  ultimately show ?thesis by simp
qed

lemma concat_nth_slice:
  assumes "i < length segs"
  shows "segs ! i = take (length (segs ! i)) (drop (length (concat (take i segs))) (concat segs))"
proof -
  have "segs = take i segs @ segs ! i # drop (Suc i) segs"
    using assms by (rule id_take_nth_drop)
  then have "concat segs = concat (take i segs) @ segs ! i @ concat (drop (Suc i) segs)"
    by (metis concat.simps(2) concat_append)
  then show ?thesis by simp
qed

subsection \<open>Tables\<close>

lemma index_frame_of_channels:
  "index (frame_of_channels chs) = [0..<foldr max (map (\<lambda>ch. length (snd ch)) chs) 0]"
  by (simp add: index_def frame_of_channels_def Let_def comp_def)

lemma distinct_index_frame: "distinct (index (frame_of_channels chs))"
  by (simp add: index_frame_of_channels)

lemma as_dataframe_Inr: "as_dataframe g = Inr df \<Longrightarrow> df = frame_of_channels (channels g) \<and> unreadable g = None"
  by (auto simp: as_dataframe_def split: option.splits)

lemma as_dataframe_Inl: "as_dataframe g = Inl e \<Longrightarrow> unreadable g = Some e"
  by (auto simp: as_dataframe_def split: option.splits)

lemma filter_fst_unique:
  "distinct (map fst rs) \<Longrightarrow> x \<in> set rs \<Longrightarrow> filter (\<lambda>r. fst r = fst x) rs = [x]"
proof (induction rs)
  case Nil then show ?case by simp
next
  case (Cons r rs)
  show ?case
  proof (cases "x = r")
    case True
    have "fst r \<notin> fst ` set rs" using Cons.prems(1) by simp
    then have "\<forall>r'\<in>set rs. fst r' \<noteq> fst r" by (metis imageI)
    then have "filter (\<lambda>r'. fst r' = fst r) rs = []"
      by (simp add: filter_empty_conv)
    then show ?thesis using True by simp
  next
    case False
    then have xin: "x \<in> set rs" using Cons.prems(2) by simp
    then have "fst r \<noteq> fst x" using Cons.prems(1) by force
    then show ?thesis using Cons.IH xin Cons.prems(1) by simp
  qed
qed

lemma select_rows_sublist:
  assumes "distinct (index df)" "set sub \<subseteq> set (rows df)"
  shows "select_rows df (map fst sub) = sub"
  using assms(2)
proof (induction sub)
  case Nil then show ?case by (simp add: select_rows_def)
next
  case (Cons x sub)
  have "filter (\<lambda>r. fst r = fst x) (rows df) = [x]"
    using assms(1) Cons.prems by (simp add: filter_fst_unique index_def)
  then show ?case using Cons by (simp add: select_rows_def)
qed

lemma select_rows_index: "distinct (index df) \<Longrightarrow> select_rows df (index df) = rows df"
  using select_rows_sublist[of df "rows df"] by (simp add: index_def)

lemma data_lines_append: "data_lines df (a @ b) = data_lines df a @ data_lines df b"
  by (simp add: data_lines_def select_rows_def)

lemma data_lines_concat: "data_lines df (concat segs) = concat (map (data_lines df) segs)"
  by (induction segs) (simp_all add: data_lines_append, simp add: data_lines_def select_rows_def)

lemma loc_Inr:
  "set chunk \<subseteq> set (index df) \<Longrightarrow>
     loc df chunk = Inr \<lparr>columns = columns df, rows = select_rows df chunk\<rparr>"
  by (auto simp: loc_def list_ex_iff)

lemma select_rows_segment:
  assumes d: "distinct (index df)" and c: "concat segs = index df" and i: "i < length segs"
  shows "select_rows df (segs ! i) =
           take (length (segs ! i)) (drop (length (concat (take i segs))) (rows df))"
proof -
  let ?sub = "take (length (segs ! i)) (drop (length (concat (take i segs))) (rows df))"
  have "segs ! i = map fst ?sub"
    using concat_nth_slice[OF i] c by (simp add: index_def take_map drop_map)
  moreover have "set ?sub \<subseteq> set (rows df)"
    by (meson in_set_dropD in_set_takeD subsetI)
  ultimately show ?thesis using select_rows_sublist[OF d, of ?sub] by simp
qed

subsection \<open>The chunked writer\<close>

lemma world_eqI:
  fixes w w' :: world
  shows "disk w' = d \<Longrightarrow> console w' = console w \<Longrightarrow> writes w' = k \<Longrightarrow>
    w' = w\<lparr>disk := d, writes := k\<rparr>"
  by simp

lemma write_segment_first:
  assumes "set chunk \<subseteq> set (index df)" "write_fault ev (writes w) = None"
  shows "write_segment ev p df 0 chunk w =
           (None, w\<lparr>disk := (disk w)(p \<mapsto> HeaderLine (columns df) # data_lines df chunk),
                     writes := Suc (writes w)\<rparr>)"
  using assms by (simp add: write_segment_def loc_Inr to_csv_def csv_lines_def data_lines_def)

lemma write_segment_later:
  assumes "set chunk \<subseteq> set (index df)" "write_fault ev (writes w) = None" "0 < count"
  shows "write_segment ev p df count chunk w =
           (None, w\<lparr>disk := (disk w)(p \<mapsto> old_lines w p @ data_lines df chunk),
                     writes := Suc (writes w)\<rparr>)"
  using assms
  by (simp add: write_segment_def loc_Inr to_csv_def csv_lines_def data_lines_def old_lines_def)

lemma write_segment_None:
  assumes "write_segment ev p df count chunk w = (None, w')" "set chunk \<subseteq> set (index df)"
  shows "write_fault ev (writes w) = None \<and>
         disk w' = (disk w)(p \<mapsto> (if count = 0 then [HeaderLine (columns df)] else old_lines w p)
                                  @ data_lines df chunk) \<and>
         console w' = console w \<and> writes w' = Suc (writes w)"
  using assms
  by (auto simp: write_segment_def loc_Inr to_csv_def csv_lines_def data_lines_def old_lines_def
           split: if_splits option.splits)

lemma write_segment_Some:
  assumes "write_segment ev p df count chunk w = (Some e, w')" "set chunk \<subseteq> set (index df)"
  shows "write_fault ev (writes w) = Some e \<and> disk w' = disk w \<and> console w' = console w \<and>
         writes w' = Suc (writes w)"
  using assms
  by (auto simp: write_segment_def loc_Inr to_csv_def split: if_splits option.splits)

lemma write_segments_later_None:
  assumes "write_segments ev p df count segs w = (None, w')" "0 < count"
    "\<forall>s\<in>set segs. set s \<subseteq> set (index df)" "segs \<noteq> []"
  shows "disk w' = (disk w)(p \<mapsto> old_lines w p @ concat (map (data_lines df) segs)) \<and>
         console w' = console w \<and> writes w' = writes w + length segs"
  using assms
proof (induction segs arbitrary: count w)
  case Nil then show ?case by simp
next
  case (Cons s segs)
  obtain r w1 where step: "write_segment ev p df count s w = (r, w1)" by (cases "write_segment ev p df count s w")
  with Cons.prems(1) have r: "r = None" by (cases r) auto
  have rest: "write_segments ev p df (Suc count) segs w1 = (None, w')"
    using Cons.prems(1) step r by simp
  have s: "set s \<subseteq> set (index df)" using Cons.prems(3) by simp
  have w1: "disk w1 = (disk w)(p \<mapsto> old_lines w p @ data_lines df s)" "console w1 = console w"
      "writes w1 = Suc (writes w)"
    using write_segment_None[OF step[unfolded r] s] Cons.prems(2) by auto
  show ?case
  proof (cases "segs = []")
    case True
    then show ?thesis using rest w1 by simp
  next
    case False
    have a: "0 < Suc count" by simp
    have b: "\<forall>s\<in>set segs. set s \<subseteq> set (index df)" using Cons.prems(3) by simp
    note ih = Cons.IH[OF rest a b False]
    from ih have d: "disk w' = (disk w1)(p \<mapsto> old_lines w1 p @ concat (map (data_lines df) segs))"
      and c: "console w' = console w1" and k: "writes w' = writes w1 + length segs" by blast+
    have o: "old_lines w1 p = old_lines w p @ data_lines df s"
      by (simp add: old_lines_def w1(1))
    show ?thesis unfolding d c k o w1 by simp
  qed
qed

lemma write_segments_None:
  assumes "write_segments ev p df 0 segs w = (None, w')"
    "\<forall>s\<in>set segs. set s \<subseteq> set (index df)" "segs \<noteq> []"
  shows "disk w' = (disk w)(p \<mapsto> HeaderLine (columns df) # data_lines df (concat segs)) \<and>
         console w' = console w \<and> writes w' = writes w + length segs"
proof -
  obtain s rest where segs: "segs = s # rest" using assms(3) by (cases segs) auto
  obtain r w1 where step: "write_segment ev p df 0 s w = (r, w1)" by (cases "write_segment ev p df 0 s w")
  with assms(1) segs have r: "r = None" by (cases r) auto
  have rest: "write_segments ev p df (Suc 0) rest w1 = (None, w')"
    using assms(1) segs step r by simp
  have s: "set s \<subseteq> set (index df)" using assms(2) segs by simp
  have w1: "disk w1 = (disk w)(p \<mapsto> HeaderLine (columns df) # data_lines df s)" "console w1 = console w"
     "writes w1 = Suc (writes w)"
    using write_segment_None[OF step[unfolded r] s] by auto
  show ?thesis
  proof (cases "rest = []")
    case True
    then show ?thesis using rest w1 segs by simp
  next
    case False
    have a: "0 < Suc 0" by simp
    have b: "\<forall>s\<in>set rest. set s \<subseteq> set (index df)" using assms(2) segs by simp
    note later = write_segments_later_None[OF rest a b False]
    from later have d: "disk w' = (disk w1)(p \<mapsto> old_lines w1 p @ concat (map (data_lines df) rest))"
      and c: "console w' = console w1" and k: "writes w' = writes w1 + length rest" by blast+
    have o: "old_lines w1 p = HeaderLine (columns df) # data_lines df s"
      by (simp add: old_lines_def w1(1))
    show ?thesis unfolding d c k o w1 segs by (simp add: data_lines_concat data_lines_append)
  qed
qed

lemma write_segments_no_fault:
  assumes "\<forall>k. write_fault ev k = None" "\<forall>s\<in>set segs. set s \<subseteq> set (index df)"
  shows "\<exists>w'. write_segments ev p df count segs w = (None, w')"
  using assms(2)
proof (induction segs arbitrary: count w)
  case Nil then show ?case by simp
next
  case (Cons s segs)
  obtain r w1 where step: "write_segment ev p df count s w = (r, w1)" by (cases "write_segment ev p df count s w")
  have s: "set s \<subseteq> set (index df)" using Cons.prems by simp
  have "r = None"
  proof (cases r)
    case None then show ?thesis .
  next
    case (Some e)
    then show ?thesis using write_segment_Some[OF step[unfolded Some] s] assms(1) by simp
  qed
  then show ?case using step Cons by simp
qed

text \<open>A failing run stops at the first segment whose write raises.\<close>

lemma write_segments_Some:
  assumes "write_segments ev p df count segs w = (Some e, w')"
    "\<forall>s\<in>set segs. set s \<subseteq> set (index df)"
  shows "\<exists>k wk. k < length segs \<and> write_segments ev p df count (take k segs) w = (None, wk) \<and>
           write_fault ev (writes w + k) = Some e \<and>
           disk w' = disk wk \<and> console w' = console wk \<and> writes w' = Suc (writes w + k)"
  using assms
proof (induction segs arbitrary: count w)
  case Nil then show ?case by simp
next
  case (Cons s segs)
  obtain r w1 where step: "write_segment ev p df count s w = (r, w1)" by (cases "write_segment ev p df count s w")
  have s: "set s \<subseteq> set (index df)" using Cons.prems(2) by simp
  show ?case
  proof (cases r)
    case (Some e')
    then have "e' = e" "w1 = w'" using Cons.prems(1) step by auto
    then have "write_fault ev (writes w) = Some e" "disk w' = disk w" "console w' = console w"
        "writes w' = Suc (writes w)"
      using write_segment_Some[OF step[unfolded Some] s] by auto
    then show ?thesis by (intro exI[of _ 0] exI[of _ w]) simp
  next
    case None
    then have rest: "write_segments ev p df (Suc count) segs w1 = (Some e, w')"
      using Cons.prems(1) step by simp
    have w1: "writes w1 = Suc (writes w)" using write_segment_None[OF step[unfolded None] s] by simp
    have b: "\<forall>s\<in>set segs. set s \<subseteq> set (index df)" using Cons.prems(2) by simp
    obtain k wk where k: "k < length segs" "write_segments ev p df (Suc count) (take k segs) w1 = (None, wk)"
       "write_fault ev (writes w1 + k) = Some e" "disk w' = disk wk" "console w' = console wk"
       "writes w' = Suc (writes w1 + k)"
      using Cons.IH[OF rest b] by blast
    then show ?thesis using step None w1 by (intro exI[of _ "Suc k"] exI[of _ wk]) simp
  qed
qed

lemma array_split_subsets:
  assumes "0 < n" "array_split xs n = Inr segs"
  shows "\<forall>s\<in>set segs. set s \<subseteq> set xs"
  using array_split_concat[OF assms] by auto

lemma write_segments_ok:
  assumes nf: "\<forall>k. write_fault ev k = None" and d: "distinct (index df)"
    and n: "0 < n" and sp: "array_split (index df) n = Inr segs"
  shows "write_segments ev p df 0 segs w =
    (None, w\<lparr>disk := (disk w)(p \<mapsto> csv_lines df True), writes := writes w + n\<rparr>)"
proof -
  have sub: "\<forall>s\<in>set segs. set s \<subseteq> set (index df)" using array_split_subsets[OF n sp] .
  have len: "length segs = n" using array_split_length[OF n sp] .
  have ne: "segs \<noteq> []" using len n by auto
  obtain w' where run: "write_segments ev p df 0 segs w = (None, w')"
    using write_segments_no_fault[OF nf sub] by blast
  have "data_lines df (concat segs) = map (\<lambda>r. DataLine (fst r) (snd r)) (rows df)"
    using array_split_concat[OF n sp] select_rows_index[OF d] by (simp add: data_lines_def)
  then have "disk w' = (disk w)(p \<mapsto> csv_lines df True)" "console w' = console w"
     "writes w' = writes w + n"
    using write_segments_None[OF run sub ne] len by (simp_all add: csv_lines_def)
  then have "w' = w\<lparr>disk := (disk w)(p \<mapsto> csv_lines df True), writes := writes w + n\<rparr>"
    by (rule world_eqI)
  then show ?thesis using run by simp
qed

lemma distinct_index_as_dataframe: "as_dataframe g = Inr df \<Longrightarrow> distinct (index df)"
  using as_dataframe_Inr distinct_index_frame by blast

lemma first_section_nonempty:
  assumes "0 < t" "0 < n"
  shows "0 < section_lengths t n ! 0"
proof (cases "t mod n = 0")
  case True
  then have "n \<le> t" using assms by (metis mod_less nat_neq_iff not_le)
  then have "0 < t div n" using assms(2) by (simp add: div_greater_zero_iff)
  then show ?thesis using True assms(2) by (simp add: section_lengths_def nth_append)
next
  case False
  then show ?thesis by (simp add: section_lengths_def nth_append)
qed

subsection \<open>C1: the chunked writer partitions the index and reproduces the table\<close>

text \<open>
  Claim C1. For every non-empty group table, the chunked writer splits the row index into
  exactly 101 segments that are contiguous slices of the index, in order, and concatenate
  back to it (the index labels are distinct, so every row is in exactly one segment);
  segment 0, which is never empty, is written as a fresh file holding the header line and
  its data rows, every later segment is appended with its data rows only, and when no
  write fails the file ends up holding one header line followed by the rows of the table
  in their order.
\<close>

theorem chunked_writer_round_trip:
  assumes df: "as_dataframe g = Inr group_df"
      and ne: "\<not> df_empty group_df"
      and nf: "\<forall>k. write_fault ev k = None"
  shows "\<exists>segments.
      array_split (index group_df) 101 = Inr segments \<and> length segments = 101 \<and>
      concat segments = index group_df \<and> distinct (index group_df) \<and>
      (\<forall>i<101. segments ! i =
          take (length (segments ! i)) (drop (length (concat (take i segments))) (index group_df))) \<and>
      (\<forall>i<101. select_rows group_df (segments ! i) =
          take (length (segments ! i)) (drop (length (concat (take i segments))) (rows group_df))) \<and>
      segments ! 0 \<noteq> [] \<and>
      (\<forall>w. write_segment ev p group_df 0 (segments ! 0) w =
          (None, w\<lparr>disk := (disk w)(p \<mapsto> HeaderLine (columns group_df) # data_lines group_df (segments ! 0)),
                    writes := Suc (writes w)\<rparr>)) \<and>
      (\<forall>i w. 0 < i \<and> i < 101 \<longrightarrow> write_segment ev p group_df i (segments ! i) w =
          (None, w\<lparr>disk := (disk w)(p \<mapsto> old_lines w p @ data_lines group_df (segments ! i)),
                    writes := Suc (writes w)\<rparr>)) \<and>
      (\<forall>w. write_segments ev p group_df 0 segments w =
          (None, w\<lparr>disk := (disk w)(p \<mapsto> HeaderLine (columns group_df) #
                     map (\<lambda>r. DataLine (fst r) (snd r)) (rows group_df)),
                    writes := writes w + 101\<rparr>))"
proof -
  have n: "0 < (101::nat)" by simp
  obtain segments where sp: "array_split (index group_df) 101 = Inr segments"
    using array_split_total[OF n] by blast
  have len: "length segments = 101" using array_split_length[OF n sp] .
  have cc: "concat segments = index group_df" using array_split_concat[OF n sp] .
  have d: "distinct (index group_df)" using distinct_index_as_dataframe[OF df] .
  have sub: "\<And>i. i < 101 \<Longrightarrow> set (segments ! i) \<subseteq> set (index group_df)"
    using array_split_subsets[OF n sp] len by simp
  have c1: "\<forall>i<101. segments ! i =
          take (length (segments ! i)) (drop (length (concat (take i segments))) (index group_df))"
    using concat_nth_slice[of _ segments] len cc by simp
  have c2: "\<forall>i<101. select_rows group_df (segments ! i) =
          take (length (segments ! i)) (drop (length (concat (take i segments))) (rows group_df))"
    using select_rows_segment[OF d cc] len by simp
  have "0 < length (index group_df)" using ne by (simp add: df_empty_def index_def)
  then have "0 < length (segments ! 0)"
    using array_split_nth_length[OF n sp, of 0] first_section_nonempty[OF _ n] by simp
  then have c0: "segments ! 0 \<noteq> []" by auto
  have c3: "\<forall>w. write_segment ev p group_df 0 (segments ! 0) w =
          (None, w\<lparr>disk := (disk w)(p \<mapsto> HeaderLine (columns group_df) # data_lines group_df (segments ! 0)),
                    writes := Suc (writes w)\<rparr>)"
    using write_segment_first[OF sub[of 0]] nf by simp
  have c4: "\<forall>i w. 0 < i \<and> i < 101 \<longrightarrow> write_segment ev p group_df i (segments ! i) w =
          (None, w\<lparr>disk := (disk w)(p \<mapsto> old_lines w p @ data_lines group_df (segments ! i)),
                    writes := Suc (writes w)\<rparr>)"
    using write_segment_later[OF sub] nf by simp
  have c5: "\<forall>w. write_segments ev p group_df 0 segments w =
          (None, w\<lparr>disk := (disk w)(p \<mapsto> HeaderLine (columns group_df) #
                     map (\<lambda>r. DataLine (fst r) (snd r)) (rows group_df)),
                    writes := writes w + 101\<rparr>)"
    using write_segments_ok[OF nf d n sp] by (simp add: csv_lines_def)
  show ?thesis using sp len cc d c1 c2 c0 c3 c4 c5 by blast
qed

lemma as_dataframe_demo_group: "as_dataframe demo_group = Inr demo_frame"
  by (simp add: as_dataframe_def demo_group_def demo_frame_def frame_of_channels_def upt_rec)

theorem chunked_writer_round_trip_witness:
  "as_dataframe demo_group = Inr demo_frame \<and> \<not> df_empty demo_frame \<and>
   (\<forall>k. write_fault demo_env k = None) \<and>
   (\<exists>segments.
      array_split (index demo_frame) 101 = Inr segments \<and> length segments = 101 \<and>
      concat segments = index demo_frame \<and>
      (\<forall>w. write_segments demo_env [''x_Voltage.csv''] demo_frame 0 segments w =
          (None, w\<lparr>disk := (disk w)([''x_Voltage.csv''] \<mapsto>
             [HeaderLine [''v''], DataLine 0 [Some 10], DataLine 1 [Some 20], DataLine 2 [Some 30]]),
             writes := writes w + 101\<rparr>)))"
proof -
  have a: "as_dataframe demo_group = Inr demo_frame" by (rule as_dataframe_demo_group)
  have b: "\<not> df_empty demo_frame" by (simp add: df_empty_def demo_frame_def)
  have c: "\<forall>k. write_fault demo_env k = None" by (simp add: demo_env_def)
  show ?thesis
    using chunked_writer_round_trip[OF a b c, of "[''x_Voltage.csv'']"] a b c
    by (simp add: demo_frame_def) blast?
qed

subsection \<open>One group, no failing write\<close>

lemma convert_group_ok:
  assumes df: "as_dataframe g = Inr df" and ne: "\<not> df_empty df"
    and nf: "\<forall>k. write_fault ev k = None"
  shows "convert_group ev src i n g created w =
     (None, created @ [path_str (construct_destination_file_path src (group_name g) ''csv'')],
      say (CreatedLine (path_name (construct_destination_file_path src (group_name g) ''csv'')))
        ((say (ConvertingGroupLine i n (group_name g)) w)
           \<lparr>disk := (disk w)(construct_destination_file_path src (group_name g) ''csv'' \<mapsto> csv_lines df True),
            writes := writes w + 101\<rparr>))"
proof -
  let ?p = "construct_destination_file_path src (group_name g) ''csv''"
  have n: "0 < (101::nat)" by simp
  obtain segs where sp: "array_split (index df) 101 = Inr segs"
    using array_split_total[OF n] by blast
  have d: "distinct (index df)" using distinct_index_as_dataframe[OF df] .
  show ?thesis
    using df ne sp write_segments_ok[OF nf d n sp]
    by (simp add: convert_group_def Let_def say_def)
qed

lemma length_filter_empty:
  "length (filter (\<lambda>s. s = []) segs) = length (filter (\<lambda>k. k = 0) (map length segs))"
  by (induction segs) auto

lemma short_section_lengths:
  "t < n \<Longrightarrow> section_lengths t n = replicate t 1 @ replicate (n - t) 0"
  by (simp add: section_lengths_def)

lemma array_split_lengths:
  assumes "0 < n" "array_split xs n = Inr segs"
  shows "map length segs = section_lengths (length xs) n"
proof (rule nth_equalityI)
  show "length (map length segs) = length (section_lengths (length xs) n)"
    using array_split_length[OF assms] section_lengths_length[OF assms(1)] by simp
next
  fix i assume "i < length (map length segs)"
  then have "i < n" using array_split_length[OF assms] by simp
  then show "map length segs ! i = section_lengths (length xs) n ! i"
    using array_split_nth_length[OF assms] array_split_length[OF assms] by simp
qed

subsection \<open>C10: a table with fewer than 101 rows\<close>

text \<open>
  Claim C10. For a non-empty table with N < 101 rows the split still gives 101 segments, of
  which 101 - N are empty; appending an empty segment to the existing output file leaves
  the disk as it is; the chunked write leaves on disk what a single unchunked
  \<^verbatim>\<open>to_csv\<close> in mode \<open>w\<close> leaves, one header line followed by the N data rows;
  and when no write fails the conversion of the group succeeds and records its path.
\<close>

theorem short_table_conversion:
  assumes df: "as_dataframe g = Inr group_df"
      and ne: "\<not> df_empty group_df"
      and short: "length (rows group_df) < 101"
      and nf: "\<forall>k. write_fault ev k = None"
  shows "\<exists>segments csv_file_path.
      csv_file_path = construct_destination_file_path src (group_name g) ''csv'' \<and>
      array_split (index group_df) 101 = Inr segments \<and> length segments = 101 \<and>
      length (filter (\<lambda>s. s = []) segments) = 101 - length (rows group_df) \<and>
      (\<forall>i w. 0 < i \<and> i < 101 \<and> segments ! i = [] \<and> csv_file_path \<in> dom (disk w) \<longrightarrow>
          write_segment ev csv_file_path group_df i (segments ! i) w =
            (None, w\<lparr>writes := Suc (writes w)\<rparr>)) \<and>
      (\<forall>w. disk (snd (write_segments ev csv_file_path group_df 0 segments w)) =
            disk (snd (to_csv ev group_df csv_file_path True ModeW w))) \<and>
      (\<forall>w. write_segments ev csv_file_path group_df 0 segments w =
          (None, w\<lparr>disk := (disk w)(csv_file_path \<mapsto> HeaderLine (columns group_df) #
                     map (\<lambda>r. DataLine (fst r) (snd r)) (rows group_df)),
                    writes := writes w + 101\<rparr>)) \<and>
      (\<forall>i n created w. \<exists>w'. convert_group ev src i n g created w =
            (None, created @ [path_str csv_file_path], w') \<and>
          disk w' = (disk w)(csv_file_path \<mapsto> HeaderLine (columns group_df) #
                     map (\<lambda>r. DataLine (fst r) (snd r)) (rows group_df)))"
proof -
  let ?p = "construct_destination_file_path src (group_name g) ''csv''"
  have n: "0 < (101::nat)" by simp
  obtain segments where sp: "array_split (index group_df) 101 = Inr segments"
    using array_split_total[OF n] by blast
  have len: "length segments = 101" using array_split_length[OF n sp] .
  have d: "distinct (index group_df)" using distinct_index_as_dataframe[OF df] .
  have lens: "map length segments =
      replicate (length (rows group_df)) 1 @ replicate (101 - length (rows group_df)) 0"
    using array_split_lengths[OF n sp] short_section_lengths[OF short] by (simp add: index_def)
  have c1: "length (filter (\<lambda>s. s = []) segments) = 101 - length (rows group_df)"
    unfolding length_filter_empty lens by simp
  have c2: "\<forall>i w. 0 < i \<and> i < 101 \<and> segments ! i = [] \<and> ?p \<in> dom (disk w) \<longrightarrow>
          write_segment ev ?p group_df i (segments ! i) w = (None, w\<lparr>writes := Suc (writes w)\<rparr>)"
  proof (intro allI impI)
    fix i and w :: world assume a: "0 < i \<and> i < 101 \<and> segments ! i = [] \<and> ?p \<in> dom (disk w)"
    then obtain old where old: "disk w ?p = Some old" by auto
    have "write_segment ev ?p group_df i [] w =
        (None, w\<lparr>disk := (disk w)(?p \<mapsto> old_lines w ?p @ data_lines group_df []),
                  writes := Suc (writes w)\<rparr>)"
      using write_segment_later[of "[]" group_df ev w i ?p] nf a by simp
    moreover have "(disk w)(?p \<mapsto> old_lines w ?p @ data_lines group_df []) = disk w"
      using old by (auto simp: old_lines_def data_lines_def select_rows_def)
    ultimately show "write_segment ev ?p group_df i (segments ! i) w = (None, w\<lparr>writes := Suc (writes w)\<rparr>)"
      using a by simp
  qed
  have run: "\<forall>w. write_segments ev ?p group_df 0 segments w =
      (None, w\<lparr>disk := (disk w)(?p \<mapsto> csv_lines group_df True), writes := writes w + 101\<rparr>)"
    using write_segments_ok[OF nf d n sp] by simp
  have c3: "\<forall>w. disk (snd (write_segments ev ?p group_df 0 segments w)) =
            disk (snd (to_csv ev group_df ?p True ModeW w))"
    using run nf by (simp add: to_csv_def)
  have c4: "\<forall>w. write_segments ev ?p group_df 0 segments w =
          (None, w\<lparr>disk := (disk w)(?p \<mapsto> HeaderLine (columns group_df) #
                     map (\<lambda>r. DataLine (fst r) (snd r)) (rows group_df)),
                    writes := writes w + 101\<rparr>)"
    using run by (simp add: csv_lines_def)
  have c5: "\<forall>i n created w. \<exists>w'. convert_group ev src i n g created w =
            (None, created @ [path_str ?p], w') \<and>
          disk w' = (disk w)(?p \<mapsto> HeaderLine (columns group_df) #
                     map (\<lambda>r. DataLine (fst r) (snd r)) (rows group_df))"
    using convert_group_ok[OF df ne nf] by (simp add: csv_lines_def say_def)
  show ?thesis using sp len c1 c2 c3 c4 c5 by blast
qed

theorem short_table_conversion_witness:
  "as_dataframe demo_group = Inr demo_frame \<and> \<not> df_empty demo_frame \<and>
   length (rows demo_frame) < 101 \<and> (\<forall>k. write_fault demo_env k = None) \<and>
   (\<exists>segments. array_split (index demo_frame) 101 = Inr segments \<and> length segments = 101 \<and>
      length (filter (\<lambda>s. s = []) segments) = 98 \<and>
      (\<forall>w. write_segments demo_env [''a'', ''x_Voltage.csv''] demo_frame 0 segments w =
          (None, w\<lparr>disk := (disk w)([''a'', ''x_Voltage.csv''] \<mapsto>
             [HeaderLine [''v''], DataLine 0 [Some 10], DataLine 1 [Some 20], DataLine 2 [Some 30]]),
             writes := writes w + 101\<rparr>)))"
proof -
  have a: "as_dataframe demo_group = Inr demo_frame" by (rule as_dataframe_demo_group)
  have b: "\<not> df_empty demo_frame" by (simp add: df_empty_def demo_frame_def)
  have s: "length (rows demo_frame) < 101" by (simp add: demo_frame_def)
  have c: "\<forall>k. write_fault demo_env k = None" by (simp add: demo_env_def)
  have p: "construct_destination_file_path [''a'', ''x.tdms''] (group_name demo_group) ''csv'' = [''a'', ''x_Voltage.csv'']"
    by (simp add: construct_destination_file_path_def demo_group_def path_parent_def path_stem_def
        path_name_def joinpath_def is_absolute_str_def rel_parts_def)
  show ?thesis
    using short_table_conversion[OF a b s c, of "[''a'', ''x.tdms'']"] a b s c unfolding p
    by (simp add: demo_frame_def) blast?
qed

subsection \<open>One group\<close>

lemma df_empty_group_frame: "df_empty (group_frame g) \<longleftrightarrow> \<not> has_rows g"
proof (cases "channels g")
  case Nil
  then show ?thesis by (simp add: df_empty_def has_rows_def group_frame_def frame_of_channels_def)
next
  case (Cons c cs)
  then have "columns (group_frame g) \<noteq> []"
    by (simp add: group_frame_def frame_of_channels_def Let_def)
  then show ?thesis by (simp add: df_empty_def has_rows_def)
qed

lemma distinct_index_group_frame: "distinct (index (group_frame g))"
  by (simp add: group_frame_def distinct_index_frame)

lemma concat_take_prefix: "concat (take k segs) = take (length (concat (take k segs))) (concat segs)"
proof -
  have "concat segs = concat (take k segs) @ concat (drop k segs)"
    by (metis append_take_drop_id concat_append)
  then show ?thesis by simp
qed

lemma data_lines_prefix:
  assumes "distinct (index df)"
  shows "data_lines df (take m (index df)) = take m (map (\<lambda>r. DataLine (fst r) (snd r)) (rows df))"
proof -
  have "set (take m (rows df)) \<subseteq> set (rows df)" by (meson in_set_takeD subsetI)
  then have "select_rows df (map fst (take m (rows df))) = take m (rows df)"
    using select_rows_sublist[OF assms] by blast
  then show ?thesis by (simp add: data_lines_def index_def take_map)
qed

lemma partial_file:
  assumes sp: "array_split (index (group_frame g)) 101 = Inr segs"
  shows "HeaderLine (columns (group_frame g)) # data_lines (group_frame g) (concat (take k segs))
       = partial_csv g k"
proof -
  let ?df = "group_frame g"
  have n: "0 < (101::nat)" by simp
  have cc: "concat segs = index ?df" using array_split_concat[OF n sp] .
  have lens: "map length segs = section_lengths (length (rows ?df)) 101"
    using array_split_lengths[OF n sp] by (simp add: index_def)
  have m: "length (concat (take k segs)) = sum_list (take k (section_lengths (length (rows ?df)) 101))"
    by (simp add: length_concat take_map[symmetric] lens[symmetric])
  have "concat (take k segs) = take (length (concat (take k segs))) (index ?df)"
    using concat_take_prefix[of k segs] cc by simp
  then have "data_lines ?df (concat (take k segs)) =
      take (length (concat (take k segs))) (map (\<lambda>r. DataLine (fst r) (snd r)) (rows ?df))"
    using data_lines_prefix[where df="group_frame g" and m="length (concat (take k segs))",
        OF distinct_index_group_frame]
    by simp
  then show ?thesis by (simp add: partial_csv_def full_csv_def csv_lines_def m)
qed

lemma convert_group_None:
  assumes "convert_group ev src i n g created w = (None, created', w')"
  shows "unreadable g = None \<and>
     created' = created @ (if has_rows g then [path_str (group_dest src g)] else []) \<and>
     disk w' = (if has_rows g then (disk w)(group_dest src g \<mapsto> full_csv g) else disk w) \<and>
     console w' = console w @ group_lines src i n [g] \<and>
     writes w' = writes w + (if has_rows g then 101 else 0)"
proof (cases "as_dataframe g")
  case (Inl e)
  then show ?thesis using assms by (simp add: convert_group_def Let_def)
next
  case (Inr df)
  then have df: "df = group_frame g" and rd: "unreadable g = None"
    using as_dataframe_Inr by (auto simp: group_frame_def)
  show ?thesis
  proof (cases "has_rows g")
    case False
    then have "df_empty df" using df df_empty_group_frame by simp
    then show ?thesis using assms Inr False rd
      by (auto simp: convert_group_def Let_def say_def)
  next
    case True
    then have ne: "\<not> df_empty df" using df df_empty_group_frame by simp
    let ?p = "construct_destination_file_path src (group_name g) ''csv''"
    let ?w1 = "say (ConvertingGroupLine i n (group_name g)) w"
    have n: "0 < (101::nat)" by simp
    obtain segs where sp: "array_split (index df) 101 = Inr segs"
      using array_split_total[OF n] by blast
    have sub: "\<forall>s\<in>set segs. set s \<subseteq> set (index df)" using array_split_subsets[OF n sp] .
    have len: "length segs = 101" using array_split_length[OF n sp] .
    then have nonempty: "segs \<noteq> []" by auto
    obtain r w2 where run: "write_segments ev ?p df 0 segs ?w1 = (r, w2)"
      by (cases "write_segments ev ?p df 0 segs ?w1")
    have r: "r = None" using assms Inr ne sp run by (cases r) (auto simp: convert_group_def Let_def)
    have res: "created' = created @ [path_str ?p]" "w' = say (CreatedLine (path_name ?p)) w2"
      using assms Inr ne sp run r by (auto simp: convert_group_def Let_def)
    have "data_lines df (concat segs) = map (\<lambda>r. DataLine (fst r) (snd r)) (rows df)"
      using array_split_concat[OF n sp] select_rows_index[OF distinct_index_as_dataframe[OF Inr]]
      by (simp add: data_lines_def)
    then have w2: "disk w2 = (disk ?w1)(?p \<mapsto> csv_lines df True)" "console w2 = console ?w1"
       "writes w2 = writes ?w1 + 101"
      using write_segments_None[OF run[unfolded r] sub nonempty] len by (simp_all add: csv_lines_def)
    show ?thesis using res w2 True rd df
      by (simp add: say_def group_dest_def full_csv_def)
  qed
qed

lemma convert_group_Some:
  assumes "convert_group ev src i n g created w = (Some e, created', w')"
  shows "created' = created \<and> console w' = console w @ [ConvertingGroupLine i n (group_name g)] \<and>
     (unreadable g = Some e \<and> disk w' = disk w \<and> writes w' = writes w \<or>
      unreadable g = None \<and> has_rows g \<and>
        (\<exists>k<101. write_fault ev (writes w + k) = Some e \<and>
           disk w' = (if k = 0 then disk w else (disk w)(group_dest src g \<mapsto> partial_csv g k)) \<and>
           writes w' = Suc (writes w + k)))"
proof (cases "as_dataframe g")
  case (Inl e')
  then have "e' = e" "created' = created" "w' = say (ConvertingGroupLine i n (group_name g)) w"
    using assms by (auto simp: convert_group_def Let_def)
  then show ?thesis using as_dataframe_Inl[OF Inl] by (simp add: say_def)
next
  case (Inr df)
  then have df: "df = group_frame g" and rd: "unreadable g = None"
    using as_dataframe_Inr by (auto simp: group_frame_def)
  have ne: "\<not> df_empty df" using assms Inr by (auto simp: convert_group_def Let_def split: if_splits)
  then have hr: "has_rows g" using df df_empty_group_frame by simp
  let ?p = "construct_destination_file_path src (group_name g) ''csv''"
  let ?w1 = "say (ConvertingGroupLine i n (group_name g)) w"
  have n: "0 < (101::nat)" by simp
  obtain segs where sp: "array_split (index df) 101 = Inr segs"
    using array_split_total[OF n] by blast
  have sub: "\<forall>s\<in>set segs. set s \<subseteq> set (index df)" using array_split_subsets[OF n sp] .
  have len: "length segs = 101" using array_split_length[OF n sp] .
  obtain r w2 where run: "write_segments ev ?p df 0 segs ?w1 = (r, w2)"
    by (cases "write_segments ev ?p df 0 segs ?w1")
  have r: "r = Some e" using assms Inr ne sp run by (cases r) (auto simp: convert_group_def Let_def)
  have res: "created' = created" "w' = w2"
    using assms Inr ne sp run r by (auto simp: convert_group_def Let_def)
  obtain k wk where k: "k < length segs" "write_segments ev ?p df 0 (take k segs) ?w1 = (None, wk)"
      "write_fault ev (writes ?w1 + k) = Some e" "disk w2 = disk wk" "console w2 = console wk"
      "writes w2 = Suc (writes ?w1 + k)"
    using write_segments_Some[OF run[unfolded r] sub] by blast
  have wk: "disk wk = (if k = 0 then disk w else (disk w)(group_dest src g \<mapsto> partial_csv g k))"
       "console wk = console ?w1"
  proof -
    show "disk wk = (if k = 0 then disk w else (disk w)(group_dest src g \<mapsto> partial_csv g k))"
    proof (cases "k = 0")
      case True
      then have "wk = ?w1" using k(2) by simp
      then show ?thesis using True by (simp add: say_def)
    next
      case False
      then have tne: "take k segs \<noteq> []" using len by auto
      have tsub: "\<forall>s\<in>set (take k segs). set s \<subseteq> set (index df)"
        using sub by (meson in_set_takeD)
      have "disk wk = (disk ?w1)(?p \<mapsto> HeaderLine (columns df) # data_lines df (concat (take k segs)))"
        using write_segments_None[OF k(2) tsub tne] by simp
      then show ?thesis using False partial_file[of g segs k] sp df
        by (simp add: say_def group_dest_def)
    qed
    show "console wk = console ?w1"
    proof (cases "k = 0")
      case True
      then have "wk = ?w1" using k(2) by simp
      then show ?thesis by simp
    next
      case False
      then have tne: "take k segs \<noteq> []" using len by auto
      have tsub: "\<forall>s\<in>set (take k segs). set s \<subseteq> set (index df)"
        using sub by (meson in_set_takeD)
      show ?thesis using write_segments_None[OF k(2) tsub tne] by simp
    qed
  qed
  have "\<exists>k<101. write_fault ev (writes w + k) = Some e \<and>
           disk w' = (if k = 0 then disk w else (disk w)(group_dest src g \<mapsto> partial_csv g k)) \<and>
           writes w' = Suc (writes w + k)"
    using k len wk res by (intro exI[of _ k]) (simp add: say_def)
  then show ?thesis using res k(5) wk(2) rd hr by (simp add: say_def)
qed

subsection \<open>The loop over the groups\<close>

lemma convert_groups_None:
  assumes "convert_groups ev src i n gs created w = (None, created', w')"
  shows "(\<forall>g\<in>set gs. unreadable g = None) \<and>
     created' = created @ map (\<lambda>g. path_str (group_dest src g)) (filter has_rows gs) \<and>
     disk w' = written_disk src gs (disk w) \<and>
     console w' = console w @ group_lines src i n gs \<and>
     writes w' = writes w + 101 * length (filter has_rows gs)"
  using assms
proof (induction gs arbitrary: i created w)
  case Nil then show ?case by simp
next
  case (Cons g gs)
  obtain r c1 w1 where step: "convert_group ev src i n g created w = (r, c1, w1)"
    by (cases "convert_group ev src i n g created w")
  have r: "r = None" using Cons.prems step by (cases r) auto
  have rest: "convert_groups ev src (Suc i) n gs c1 w1 = (None, created', w')"
    using Cons.prems step r by simp
  from convert_group_None[OF step[unfolded r]]
  have o1: "unreadable g = None"
    and o2: "c1 = created @ (if has_rows g then [path_str (group_dest src g)] else [])"
    and o3: "disk w1 = (if has_rows g then (disk w)(group_dest src g \<mapsto> full_csv g) else disk w)"
    and o4: "console w1 = console w @ group_lines src i n [g]"
    and o5: "writes w1 = writes w + (if has_rows g then 101 else 0)"
    by blast+
  from Cons.IH[OF rest]
  have i1: "\<forall>g\<in>set gs. unreadable g = None"
    and i2: "created' = c1 @ map (\<lambda>g. path_str (group_dest src g)) (filter has_rows gs)"
    and i3: "disk w' = written_disk src gs (disk w1)"
    and i4: "console w' = console w1 @ group_lines src (Suc i) n gs"
    and i5: "writes w' = writes w1 + 101 * length (filter has_rows gs)"
    by blast+
  have a: "\<forall>h\<in>set (g # gs). unreadable h = None" using o1 i1 by simp
  have b: "created' = created @ map (\<lambda>g. path_str (group_dest src g)) (filter has_rows (g # gs))"
    unfolding i2 o2 by simp
  have c: "disk w' = written_disk src (g # gs) (disk w)"
    unfolding i3 o3 by simp
  have d: "console w' = console w @ group_lines src i n (g # gs)"
    unfolding i4 o4 by simp
  have e: "writes w' = writes w + 101 * length (filter has_rows (g # gs))"
    unfolding i5 o5 by simp
  show ?case using a b c d e by blast
qed

lemma convert_groups_Some:
  assumes "convert_groups ev src i n gs created w = (Some e, created', w')"
  shows "\<exists>pre g post cm wm. gs = pre @ g # post \<and>
     convert_groups ev src i n pre created w = (None, cm, wm) \<and>
     convert_group ev src (i + length pre) n g cm wm = (Some e, created', w')"
  using assms
proof (induction gs arbitrary: i created w)
  case Nil then show ?case by simp
next
  case (Cons g gs)
  obtain r c1 w1 where step: "convert_group ev src i n g created w = (r, c1, w1)"
    by (cases "convert_group ev src i n g created w")
  show ?case
  proof (cases r)
    case (Some e')
    then have "convert_group ev src i n g created w = (Some e, created', w')"
      using Cons.prems step by auto
    then show ?thesis
      by (intro exI[of _ "[]"] exI[of _ g] exI[of _ gs] exI[of _ created] exI[of _ w]) simp
  next
    case None
    then have rest: "convert_groups ev src (Suc i) n gs c1 w1 = (Some e, created', w')"
      using Cons.prems step by simp
    obtain pre h post cm wm where ih: "gs = pre @ h # post"
        "convert_groups ev src (Suc i) n pre c1 w1 = (None, cm, wm)"
        "convert_group ev src (Suc i + length pre) n h cm wm = (Some e, created', w')"
      using Cons.IH[OF rest] by blast
    then show ?thesis using step None
      by (intro exI[of _ "g # pre"] exI[of _ h] exI[of _ post] exI[of _ cm] exI[of _ wm]) simp
  qed
qed

lemma convert_group_no_fault:
  assumes "\<forall>k. write_fault ev k = None" "unreadable g = None"
  shows "\<exists>c' w'. convert_group ev src i n g created w = (None, c', w')"
proof -
  obtain r c' w' where res: "convert_group ev src i n g created w = (r, c', w')"
    by (cases "convert_group ev src i n g created w")
  have "r = None"
  proof (cases r)
    case None then show ?thesis .
  next
    case (Some e)
    then show ?thesis using convert_group_Some[OF res[unfolded Some]] assms by auto
  qed
  then show ?thesis using res by blast
qed

lemma convert_groups_no_fault:
  assumes "\<forall>k. write_fault ev k = None" "\<forall>g\<in>set gs. unreadable g = None"
  shows "\<exists>c' w'. convert_groups ev src i n gs created w = (None, c', w')"
  using assms(2)
proof (induction gs arbitrary: i created w)
  case Nil then show ?case by simp
next
  case (Cons g gs)
  obtain c1 w1 where "convert_group ev src i n g created w = (None, c1, w1)"
    using convert_group_no_fault[OF assms(1)] Cons.prems by (meson list.set_intros(1))
  then show ?case using Cons by simp
qed

subsection \<open>The disk after a run of conversions\<close>

lemma written_disk_other:
  "p \<notin> group_dest src ` set (filter has_rows gs) \<Longrightarrow> written_disk src gs d p = d p"
  by (induction gs arbitrary: d) auto

lemma dom_written_disk:
  "dom (written_disk src gs d) = dom d \<union> group_dest src ` set (filter has_rows gs)"
  by (induction gs arbitrary: d) auto

lemma written_disk_distinct:
  assumes "distinct (map (group_dest src) (filter has_rows gs))" "g \<in> set gs" "has_rows g"
  shows "written_disk src gs d (group_dest src g) = Some (full_csv g)"
  using assms
proof (induction gs arbitrary: d)
  case Nil then show ?case by simp
next
  case (Cons h gs)
  show ?case
  proof (cases "g \<in> set gs")
    case True
    have "distinct (map (group_dest src) (filter has_rows gs))"
      using Cons.prems(1) by (simp split: if_splits)
    then show ?thesis using Cons.IH True Cons.prems(3) by simp
  next
    case False
    then have gh: "h = g" using Cons.prems(2) by simp
    then have "group_dest src g \<notin> group_dest src ` set (filter has_rows gs)"
      using Cons.prems(1,3) by simp
    then show ?thesis using gh Cons.prems(3) by (simp add: written_disk_other)
  qed
qed

lemma warning_in_group_lines:
  "g \<in> set gs \<Longrightarrow> \<not> has_rows g \<Longrightarrow> EmptyGroupWarning (group_name g) \<in> set (group_lines src i n gs)"
  by (induction gs arbitrary: i) auto

subsection \<open>The whole file\<close>

lemma convert_tdms_file_True:
  assumes "convert_tdms_file ev src w = ((True, msg, created), w')"
  shows "\<exists>groups. tdms_open ev src = Inr groups \<and> groups \<noteq> [] \<and> msg = [] \<and>
     convert_groups ev src 1 (length groups) groups [] (say (ProcessingLine (path_name src)) w)
       = (None, created, w')"
proof (cases "tdms_open ev src")
  case (Inl e)
  then show ?thesis using assms by (simp add: convert_tdms_file_def convert_body_def Let_def)
next
  case (Inr groups)
  show ?thesis
  proof (cases "groups = []")
    case True
    then show ?thesis using assms Inr by (simp add: convert_tdms_file_def convert_body_def Let_def)
  next
    case False
    obtain r c1 w1 where run:
      "convert_groups ev src 1 (length groups) groups [] (say (ProcessingLine (path_name src)) w) = (r, c1, w1)"
      by (cases "convert_groups ev src 1 (length groups) groups [] (say (ProcessingLine (path_name src)) w)")
    show ?thesis
    proof (cases r)
      case None
      then show ?thesis using assms Inr False run
        by (simp add: convert_tdms_file_def convert_body_def Let_def)
    next
      case (Some e)
      then show ?thesis using assms Inr False run
        by (simp add: convert_tdms_file_def convert_body_def Let_def)
    qed
  qed
qed

lemma convert_tdms_file_ok:
  assumes op: "tdms_open ev src = Inr groups" and ne: "groups \<noteq> []"
    and nf: "\<forall>k. write_fault ev k = None" and rd: "\<forall>g\<in>set groups. unreadable g = None"
  shows "\<exists>w'. convert_tdms_file ev src w =
       ((True, [], map (\<lambda>g. path_str (group_dest src g)) (filter has_rows groups)), w') \<and>
     disk w' = written_disk src groups (disk w) \<and>
     console w' = console w @ ProcessingLine (path_name src) # group_lines src 1 (length groups) groups"
proof -
  let ?w0 = "say (ProcessingLine (path_name src)) w"
  obtain c1 w1 where run: "convert_groups ev src 1 (length groups) groups [] ?w0 = (None, c1, w1)"
    using convert_groups_no_fault[OF nf rd] by blast
  from convert_groups_None[OF run]
  have c: "c1 = map (\<lambda>g. path_str (group_dest src g)) (filter has_rows groups)"
    and d: "disk w1 = written_disk src groups (disk ?w0)"
    and l: "console w1 = console ?w0 @ group_lines src 1 (length groups) groups"
    by simp_all
  have res: "convert_tdms_file ev src w = ((True, [], c1), w1)"
    using op ne run by (simp add: convert_tdms_file_def convert_body_def Let_def)
  have d': "disk w1 = written_disk src groups (disk w)" unfolding d by (simp add: say_def)
  have l': "console w1 = console w @ ProcessingLine (path_name src) # group_lines src 1 (length groups) groups"
    unfolding l by (simp add: say_def)
  show ?thesis using res c d' l' by blast
qed

subsection \<open>C2: the outputs of a successful conversion\<close>

text \<open>
  Claim C2, as amended. When single-file conversion returns success, the source file has
  at least one group, every group was read, and the created-files list holds one path per
  group with at least one row, in group order, each computed as
  parent-dir/\<open>{source_stem}_{group_name}.csv\<close>: its length is K. The files written
  are exactly the files at those paths: K files when the K paths are pairwise distinct,
  each then holding its group's complete table; when two groups are given the same path
  the later one replaces the earlier one's file. A group without rows is skipped with a
  warning on the console and the conversion goes on.
\<close>

theorem successful_conversion_outputs:
  assumes "fst (convert_tdms_file ev src w) = (True, msg, created_files)"
  shows "\<exists>groups w'. tdms_open ev src = Inr groups \<and> groups \<noteq> [] \<and>
      convert_tdms_file ev src w = ((True, [], created_files), w') \<and>
      (\<forall>g\<in>set groups. unreadable g = None) \<and>
      created_files =
        map (\<lambda>g. path_str (joinpath (path_parent src) (path_stem src @ ''_'' @ group_name g @ ''.csv'')))
          (filter has_rows groups) \<and>
      length created_files = length (filter has_rows groups) \<and>
      disk w' = written_disk src groups (disk w) \<and>
      dom (disk w') = dom (disk w) \<union> group_dest src ` set (filter has_rows groups) \<and>
      (distinct (map (group_dest src) (filter has_rows groups)) \<longrightarrow>
         card (group_dest src ` set (filter has_rows groups)) = length (filter has_rows groups) \<and>
         (\<forall>g\<in>set groups. has_rows g \<longrightarrow> disk w' (group_dest src g) = Some (full_csv g))) \<and>
      (\<forall>g\<in>set groups. \<not> has_rows g \<longrightarrow> EmptyGroupWarning (group_name g) \<in> set (console w')) \<and>
      console w' = console w @ ProcessingLine (path_name src) # group_lines src 1 (length groups) groups"
proof -
  obtain w' where res: "convert_tdms_file ev src w = ((True, msg, created_files), w')"
    using assms by (cases "convert_tdms_file ev src w") auto
  let ?w0 = "say (ProcessingLine (path_name src)) w"
  obtain groups where op: "tdms_open ev src = Inr groups" and ne: "groups \<noteq> []" and msg: "msg = []"
    and run: "convert_groups ev src 1 (length groups) groups [] ?w0 = (None, created_files, w')"
    using convert_tdms_file_True[OF res] by blast
  from convert_groups_None[OF run]
  have rd: "\<forall>g\<in>set groups. unreadable g = None"
    and c: "created_files = map (\<lambda>g. path_str (group_dest src g)) (filter has_rows groups)"
    and d: "disk w' = written_disk src groups (disk ?w0)"
    and l: "console w' = console ?w0 @ group_lines src 1 (length groups) groups"
    by simp_all
  have d': "disk w' = written_disk src groups (disk w)" unfolding d by (simp add: say_def)
  have l': "console w' = console w @ ProcessingLine (path_name src) # group_lines src 1 (length groups) groups"
    unfolding l by (simp add: say_def)
  have c': "created_files =
        map (\<lambda>g. path_str (joinpath (path_parent src) (path_stem src @ ''_'' @ group_name g @ ''.csv'')))
          (filter has_rows groups)"
    unfolding c by (simp add: group_dest_def construct_destination_file_path_def Let_def)
  have len: "length created_files = length (filter has_rows groups)" unfolding c by simp
  have dm: "dom (disk w') = dom (disk w) \<union> group_dest src ` set (filter has_rows groups)"
    unfolding d' by (rule dom_written_disk)
  have ds: "distinct (map (group_dest src) (filter has_rows groups)) \<longrightarrow>
         card (group_dest src ` set (filter has_rows groups)) = length (filter has_rows groups) \<and>
         (\<forall>g\<in>set groups. has_rows g \<longrightarrow> disk w' (group_dest src g) = Some (full_csv g))"
  proof
    assume dist: "distinct (map (group_dest src) (filter has_rows groups))"
    have "card (set (map (group_dest src) (filter has_rows groups))) = length (map (group_dest src) (filter has_rows groups))"
      using dist by (rule distinct_card)
    then have k: "card (group_dest src ` set (filter has_rows groups)) = length (filter has_rows groups)"
      by simp
    have "\<forall>g\<in>set groups. has_rows g \<longrightarrow> disk w' (group_dest src g) = Some (full_csv g)"
      unfolding d' using written_disk_distinct[OF dist] by blast
    then show "card (group_dest src ` set (filter has_rows groups)) = length (filter has_rows groups) \<and>
         (\<forall>g\<in>set groups. has_rows g \<longrightarrow> disk w' (group_dest src g) = Some (full_csv g))"
      using k by blast
  qed
  have wn: "\<forall>g\<in>set groups. \<not> has_rows g \<longrightarrow> EmptyGroupWarning (group_name g) \<in> set (console w')"
    unfolding l' using warning_in_group_lines by simp
  have res': "convert_tdms_file ev src w = ((True, [], created_files), w')" using res msg by simp
  show ?thesis using op ne res' rd c' len d' dm ds wn l' by blast
qed

theorem successful_conversion_outputs_witness:
  "fst (convert_tdms_file two_group_env [''a'', ''x.tdms''] empty_world) = (True, [], [''a/x_Voltage.csv'']) \<and>
   (\<exists>groups w'. tdms_open two_group_env [''a'', ''x.tdms''] = Inr groups \<and> groups \<noteq> [] \<and>
      convert_tdms_file two_group_env [''a'', ''x.tdms''] empty_world = ((True, [], [''a/x_Voltage.csv'']), w') \<and>
      (\<forall>g\<in>set groups. unreadable g = None) \<and>
      [''a/x_Voltage.csv''] =
        map (\<lambda>g. path_str (joinpath (path_parent [''a'', ''x.tdms'']) (path_stem [''a'', ''x.tdms''] @ ''_'' @ group_name g @ ''.csv'')))
          (filter has_rows groups) \<and>
      length [''a/x_Voltage.csv''] = length (filter has_rows groups) \<and>
      disk w' = written_disk [''a'', ''x.tdms''] groups (disk empty_world) \<and>
      dom (disk w') = dom (disk empty_world) \<union> group_dest [''a'', ''x.tdms''] ` set (filter has_rows groups) \<and>
      (distinct (map (group_dest [''a'', ''x.tdms'']) (filter has_rows groups)) \<longrightarrow>
         card (group_dest [''a'', ''x.tdms''] ` set (filter has_rows groups)) = length (filter has_rows groups) \<and>
         (\<forall>g\<in>set groups. has_rows g \<longrightarrow> disk w' (group_dest [''a'', ''x.tdms''] g) = Some (full_csv g))) \<and>
      (\<forall>g\<in>set groups. \<not> has_rows g \<longrightarrow> EmptyGroupWarning (group_name g) \<in> set (console w')) \<and>
      console w' = console empty_world @ ProcessingLine (path_name [''a'', ''x.tdms'']) # group_lines [''a'', ''x.tdms''] 1 (length groups) groups)"
proof -
  have op: "tdms_open two_group_env [''a'', ''x.tdms''] = Inr [demo_group, empty_group]"
    by (simp add: two_group_env_def)
  have ne: "[demo_group, empty_group] \<noteq> []" by simp
  have nf: "\<forall>k. write_fault two_group_env k = None" by (simp add: two_group_env_def)
  have rd: "\<forall>g\<in>set [demo_group, empty_group]. unreadable g = None"
    by (simp add: demo_group_def empty_group_def)
  have c: "map (\<lambda>g. path_str (group_dest [''a'', ''x.tdms''] g)) (filter has_rows [demo_group, empty_group])
      = [''a/x_Voltage.csv'']"
    by code_simp
  have a: "fst (convert_tdms_file two_group_env [''a'', ''x.tdms''] empty_world) = (True, [], [''a/x_Voltage.csv''])"
    using convert_tdms_file_ok[OF op ne nf rd, of empty_world] unfolding c by auto
  show ?thesis by (rule conjI[OF a successful_conversion_outputs[OF a]])
qed

text \<open>
  The claim as stated (exactly K output files) fails when two groups share an output path:
  the groups \<open>a/b\<close> and \<open>a//b\<close> both have rows, the conversion succeeds and lists
  two paths, and one file is on disk.
\<close>

lemma collide_dest:
  "group_dest [''d'', ''x.tdms''] collide_a = [''d'', ''x_a'', ''b.csv'']"
  "group_dest [''d'', ''x.tdms''] collide_b = [''d'', ''x_a'', ''b.csv'']"
  by code_simp+

lemma collide_rows: "has_rows collide_a" "has_rows collide_b"
  by code_simp+

theorem colliding_groups_counterexample:
  "fst (convert_tdms_file collide_env [''d'', ''x.tdms''] empty_world)
     = (True, [], [''d/x_a/b.csv'', ''d/x_a/b.csv'']) \<and>
   tdms_open collide_env [''d'', ''x.tdms''] = Inr [collide_a, collide_b] \<and>
   group_name collide_a \<noteq> group_name collide_b \<and>
   length (filter has_rows [collide_a, collide_b]) = 2 \<and>
   dom (disk (snd (convert_tdms_file collide_env [''d'', ''x.tdms''] empty_world)))
     = {[''d'', ''x_a'', ''b.csv'']} \<and>
   card (dom (disk (snd (convert_tdms_file collide_env [''d'', ''x.tdms''] empty_world)))) = 1"
proof -
  have op: "tdms_open collide_env [''d'', ''x.tdms''] = Inr [collide_a, collide_b]"
    by (simp add: collide_env_def)
  have nf: "\<forall>k. write_fault collide_env k = None" by (simp add: collide_env_def)
  have rd: "\<forall>g\<in>set [collide_a, collide_b]. unreadable g = None"
    by (simp add: collide_a_def collide_b_def)
  obtain w' where res: "convert_tdms_file collide_env [''d'', ''x.tdms''] empty_world =
       ((True, [], map (\<lambda>g. path_str (group_dest [''d'', ''x.tdms''] g)) (filter has_rows [collide_a, collide_b])), w')"
    and d: "disk w' = written_disk [''d'', ''x.tdms''] [collide_a, collide_b] (disk empty_world)"
    using convert_tdms_file_ok[OF op _ nf rd, of empty_world] by auto
  have dm: "dom (disk w') = {[''d'', ''x_a'', ''b.csv'']}"
    unfolding d dom_written_disk by (simp add: collide_rows collide_dest empty_world_def)
  have c: "map (\<lambda>g. path_str (group_dest [''d'', ''x.tdms''] g)) (filter has_rows [collide_a, collide_b])
      = [''d/x_a/b.csv'', ''d/x_a/b.csv'']"
    by (simp add: collide_rows collide_dest path_str_def)
  have n: "group_name collide_a \<noteq> group_name collide_b" by (simp add: collide_a_def collide_b_def)
  show ?thesis using res c op n dm by (simp add: collide_rows)
qed

subsection \<open>A conversion that raises\<close>

lemma convert_body_Raised:
  assumes "fst (convert_body ev src w) = Raised e"
  shows "(tdms_open ev src = Inl e \<and>
            convert_body ev src w = (Raised e, [], say (ProcessingLine (path_name src)) w)) \<or>
         (\<exists>groups created_files w1. tdms_open ev src = Inr groups \<and> groups \<noteq> [] \<and>
            convert_groups ev src 1 (length groups) groups [] (say (ProcessingLine (path_name src)) w)
              = (Some e, created_files, w1) \<and>
            convert_body ev src w = (Raised e, created_files, w1))"
proof (cases "tdms_open ev src")
  case (Inl e')
  then show ?thesis using assms by (simp add: convert_body_def Let_def)
next
  case (Inr groups)
  show ?thesis
  proof (cases "groups = []")
    case True
    then show ?thesis using assms Inr by (simp add: convert_body_def Let_def)
  next
    case False
    obtain r c1 w1 where run:
      "convert_groups ev src 1 (length groups) groups [] (say (ProcessingLine (path_name src)) w) = (r, c1, w1)"
      by (cases "convert_groups ev src 1 (length groups) groups [] (say (ProcessingLine (path_name src)) w)")
    show ?thesis
    proof (cases r)
      case None
      then show ?thesis using assms Inr False run by (simp add: convert_body_def Let_def)
    next
      case (Some e')
      then show ?thesis using assms Inr False run by (simp add: convert_body_def Let_def)
    qed
  qed
qed

lemma convert_tdms_file_Raised:
  assumes "convert_body ev src w = (Raised e, created_files, w1)"
  shows "convert_tdms_file ev src w =
       ((False, ''Error converting '' @ path_name src @ '': '' @ exn_str e, created_files),
        say (ErrorLine (''Error converting '' @ path_name src @ '': '' @ exn_str e)) w1)"
  using assms by (simp add: convert_tdms_file_def Let_def)

lemma failed_group_disk:
  assumes pre: "convert_groups ev src i n pre [] w0 = (None, cm, wm)"
      and g: "convert_group ev src j n g cm wm = (Some e, cf, w1)"
  shows "(\<forall>h\<in>set pre. unreadable h = None) \<and>
     cf = map (\<lambda>h. path_str (group_dest src h)) (filter has_rows pre) \<and>
     (unreadable g = Some e \<and> disk w1 = written_disk src pre (disk w0) \<or>
      unreadable g = None \<and> has_rows g \<and>
        (\<exists>k<101. write_fault ev (writes w0 + 101 * length (filter has_rows pre) + k) = Some e \<and>
           disk w1 = (if k = 0 then written_disk src pre (disk w0)
                      else (written_disk src pre (disk w0))(group_dest src g \<mapsto> partial_csv g k)))) \<and>
     (distinct (map (group_dest src) (filter has_rows (pre @ [g]))) \<longrightarrow>
        (\<forall>h\<in>set pre. has_rows h \<longrightarrow> disk w1 (group_dest src h) = Some (full_csv h)))"
proof -
  from convert_groups_None[OF pre]
  have rd: "\<forall>h\<in>set pre. unreadable h = None"
    and cm: "cm = map (\<lambda>h. path_str (group_dest src h)) (filter has_rows pre)"
    and dm: "disk wm = written_disk src pre (disk w0)"
    and wm: "writes wm = writes w0 + 101 * length (filter has_rows pre)"
    by simp_all
  from convert_group_Some[OF g]
  have cf: "cf = cm"
    and alt: "unreadable g = Some e \<and> disk w1 = disk wm \<and> writes w1 = writes wm \<or>
      unreadable g = None \<and> has_rows g \<and>
        (\<exists>k<101. write_fault ev (writes wm + k) = Some e \<and>
           disk w1 = (if k = 0 then disk wm else (disk wm)(group_dest src g \<mapsto> partial_csv g k)) \<and>
           writes w1 = Suc (writes wm + k))"
    by blast+
  have alt': "unreadable g = Some e \<and> disk w1 = written_disk src pre (disk w0) \<or>
      unreadable g = None \<and> has_rows g \<and>
        (\<exists>k<101. write_fault ev (writes w0 + 101 * length (filter has_rows pre) + k) = Some e \<and>
           disk w1 = (if k = 0 then written_disk src pre (disk w0)
                      else (written_disk src pre (disk w0))(group_dest src g \<mapsto> partial_csv g k)))"
    using alt unfolding dm wm by blast
  have keep: "distinct (map (group_dest src) (filter has_rows (pre @ [g]))) \<longrightarrow>
        (\<forall>h\<in>set pre. has_rows h \<longrightarrow> disk w1 (group_dest src h) = Some (full_csv h))"
  proof (intro impI ballI)
    fix h assume dist: "distinct (map (group_dest src) (filter has_rows (pre @ [g])))"
      and h: "h \<in> set pre" and hr: "has_rows h"
    have dpre: "distinct (map (group_dest src) (filter has_rows pre))" using dist by simp
    have base: "written_disk src pre (disk w0) (group_dest src h) = Some (full_csv h)"
      using written_disk_distinct[OF dpre h hr] .
    from alt' show "disk w1 (group_dest src h) = Some (full_csv h)"
    proof
      assume "unreadable g = Some e \<and> disk w1 = written_disk src pre (disk w0)"
      then show ?thesis using base by simp
    next
      assume a: "unreadable g = None \<and> has_rows g \<and>
        (\<exists>k<101. write_fault ev (writes w0 + 101 * length (filter has_rows pre) + k) = Some e \<and>
           disk w1 = (if k = 0 then written_disk src pre (disk w0)
                      else (written_disk src pre (disk w0))(group_dest src g \<mapsto> partial_csv g k)))"
      then have "group_dest src g \<notin> group_dest src ` set (filter has_rows pre)"
        using dist by simp
      moreover have "group_dest src h \<in> group_dest src ` set (filter has_rows pre)"
        using h hr by simp
      ultimately have ne: "group_dest src h \<noteq> group_dest src g" by metis
      from a obtain k where
        "disk w1 = (if k = 0 then written_disk src pre (disk w0)
                      else (written_disk src pre (disk w0))(group_dest src g \<mapsto> partial_csv g k))"
        by blast
      then have "disk w1 (group_dest src h) = written_disk src pre (disk w0) (group_dest src h)"
        using ne by (cases "k = 0") simp_all
      then show ?thesis using base by simp
    qed
  qed
  show ?thesis using rd cf cm alt' keep by blast
qed

subsection \<open>C3: what a failed conversion returns and leaves on disk\<close>

text \<open>
  Claim C3, as amended. If an exception is raised while the file is opened and its groups
  are listed, while a group is materialized, or by a write, single-file conversion stops
  there: no later group is touched, the handler changes nothing on disk, and the result
  is failure with the message \<open>Error converting <name>: <str(e)>\<close> and with the
  created-files list holding exactly the output paths of the groups with rows that came
  before the failing group, all of whose 101 segments were written. Each of those files
  still holds its group's complete table provided no later group that was written,
  the failing one included, has the same output path (output paths are not checked for
  collisions).
\<close>

theorem failure_returns_completed_outputs:
  assumes "fst (convert_body ev src w) = Raised e"
  shows "\<exists>created_files w1.
     convert_body ev src w = (Raised e, created_files, w1) \<and>
     convert_tdms_file ev src w =
       ((False, ''Error converting '' @ path_name src @ '': '' @ exn_str e, created_files),
        say (ErrorLine (''Error converting '' @ path_name src @ '': '' @ exn_str e)) w1) \<and>
     (tdms_open ev src = Inl e \<and> created_files = [] \<and> disk w1 = disk w \<or>
      (\<exists>pre g post. tdms_open ev src = Inr (pre @ g # post) \<and>
         (\<forall>h\<in>set pre. unreadable h = None) \<and>
         created_files = map (\<lambda>h. path_str (group_dest src h)) (filter has_rows pre) \<and>
         (unreadable g = Some e \<and> disk w1 = written_disk src pre (disk w) \<or>
          unreadable g = None \<and> has_rows g \<and>
            (\<exists>k<101. write_fault ev (writes w + 101 * length (filter has_rows pre) + k) = Some e \<and>
               disk w1 = (if k = 0 then written_disk src pre (disk w)
                          else (written_disk src pre (disk w))(group_dest src g \<mapsto> partial_csv g k)))) \<and>
         (distinct (map (group_dest src) (filter has_rows (pre @ [g]))) \<longrightarrow>
            (\<forall>h\<in>set pre. has_rows h \<longrightarrow> disk w1 (group_dest src h) = Some (full_csv h)))))"
proof -
  let ?w0 = "say (ProcessingLine (path_name src)) w"
  from convert_body_Raised[OF assms] show ?thesis
  proof
    assume a: "tdms_open ev src = Inl e \<and> convert_body ev src w = (Raised e, [], ?w0)"
    then have b: "convert_body ev src w = (Raised e, [], ?w0)" by simp
    have "disk ?w0 = disk w" by (simp add: say_def)
    then show ?thesis using a convert_tdms_file_Raised[OF b] by blast
  next
    assume "\<exists>groups created_files w1. tdms_open ev src = Inr groups \<and> groups \<noteq> [] \<and>
            convert_groups ev src 1 (length groups) groups [] ?w0 = (Some e, created_files, w1) \<and>
            convert_body ev src w = (Raised e, created_files, w1)"
    then obtain groups cf w1 where op: "tdms_open ev src = Inr groups"
      and run: "convert_groups ev src 1 (length groups) groups [] ?w0 = (Some e, cf, w1)"
      and body: "convert_body ev src w = (Raised e, cf, w1)" by blast
    obtain pre g post cm wm where split: "groups = pre @ g # post"
      and p: "convert_groups ev src 1 (length groups) pre [] ?w0 = (None, cm, wm)"
      and f: "convert_group ev src (1 + length pre) (length groups) g cm wm = (Some e, cf, w1)"
      using convert_groups_Some[OF run] by blast
    have d0: "disk ?w0 = disk w" and k0: "writes ?w0 = writes w" by (simp_all add: say_def)
    note fd = failed_group_disk[OF p f, unfolded d0 k0]
    have "\<exists>pre g post. tdms_open ev src = Inr (pre @ g # post) \<and>
         (\<forall>h\<in>set pre. unreadable h = None) \<and>
         cf = map (\<lambda>h. path_str (group_dest src h)) (filter has_rows pre) \<and>
         (unreadable g = Some e \<and> disk w1 = written_disk src pre (disk w) \<or>
          unreadable g = None \<and> has_rows g \<and>
            (\<exists>k<101. write_fault ev (writes w + 101 * length (filter has_rows pre) + k) = Some e \<and>
               disk w1 = (if k = 0 then written_disk src pre (disk w)
                          else (written_disk src pre (disk w))(group_dest src g \<mapsto> partial_csv g k)))) \<and>
         (distinct (map (group_dest src) (filter has_rows (pre @ [g]))) \<longrightarrow>
            (\<forall>h\<in>set pre. has_rows h \<longrightarrow> disk w1 (group_dest src h) = Some (full_csv h)))"
      using op split fd by (intro exI[of _ pre] exI[of _ g] exI[of _ post]) simp
    then show ?thesis using body convert_tdms_file_Raised[OF body] by blast
  qed
qed


theorem failure_returns_completed_outputs_witness:
  "fst (convert_body full_env [''d'', ''x.tdms''] empty_world) = Raised (OSError ''No space left on device'') \<and>
   (\<exists>created_files w1.
     convert_body full_env [''d'', ''x.tdms''] empty_world = (Raised (OSError ''No space left on device''), created_files, w1) \<and>
     convert_tdms_file full_env [''d'', ''x.tdms''] empty_world =
       ((False, ''Error converting '' @ path_name [''d'', ''x.tdms''] @ '': '' @ exn_str (OSError ''No space left on device''), created_files),
        say (ErrorLine (''Error converting '' @ path_name [''d'', ''x.tdms''] @ '': '' @ exn_str (OSError ''No space left on device''))) w1) \<and>
     (tdms_open full_env [''d'', ''x.tdms''] = Inl (OSError ''No space left on device'') \<and> created_files = [] \<and> disk w1 = disk empty_world \<or>
      (\<exists>pre g post. tdms_open full_env [''d'', ''x.tdms''] = Inr (pre @ g # post) \<and>
         (\<forall>h\<in>set pre. unreadable h = None) \<and>
         created_files = map (\<lambda>h. path_str (group_dest [''d'', ''x.tdms''] h)) (filter has_rows pre) \<and>
         (unreadable g = Some (OSError ''No space left on device'') \<and> disk w1 = written_disk [''d'', ''x.tdms''] pre (disk empty_world) \<or>
          unreadable g = None \<and> has_rows g \<and>
            (\<exists>k<101. write_fault full_env (writes empty_world + 101 * length (filter has_rows pre) + k) = Some (OSError ''No space left on device'') \<and>
               disk w1 = (if k = 0 then written_disk [''d'', ''x.tdms''] pre (disk empty_world)
                          else (written_disk [''d'', ''x.tdms''] pre (disk empty_world))(group_dest [''d'', ''x.tdms''] g \<mapsto> partial_csv g k)))) \<and>
         (distinct (map (group_dest [''d'', ''x.tdms'']) (filter has_rows (pre @ [g]))) \<longrightarrow>
            (\<forall>h\<in>set pre. has_rows h \<longrightarrow> disk w1 (group_dest [''d'', ''x.tdms''] h) = Some (full_csv h))))))"
proof -
  have a: "fst (convert_body full_env [''d'', ''x.tdms''] empty_world) = Raised (OSError ''No space left on device'')"
    by code_simp
  show ?thesis by (rule conjI[OF a failure_returns_completed_outputs[OF a]])
qed

text \<open>
  The claim as stated (the listed files are fully written and preserved) fails when the
  failing group shares its output path with a completed one: the path is listed, and the
  file holds the first segment of the failing group.
\<close>

theorem overwritten_output_counterexample:
  "fst (convert_tdms_file full_env [''d'', ''x.tdms''] empty_world)
     = (False, ''Error converting x.tdms: No space left on device'', [''d/x_a/b.csv'']) \<and>
   path_str (group_dest [''d'', ''x.tdms''] collide_a) = ''d/x_a/b.csv'' \<and>
   full_csv collide_a = [HeaderLine [''v''], DataLine 0 [Some 1], DataLine 1 [Some 2]] \<and>
   disk (snd (convert_tdms_file full_env [''d'', ''x.tdms''] empty_world)) (group_dest [''d'', ''x.tdms''] collide_a)
     = Some [HeaderLine [''v''], DataLine 0 [Some 3]]"
  by (intro conjI; code_simp)

subsection \<open>C7: a file without groups\<close>

text \<open>
  Claim C7, as amended. For every source file whose group enumeration yields zero groups,
  single-file conversion returns failure with the message
  \<open>No groups found in TDMS file\<close> and an empty created-files list, and writes nothing.
\<close>

theorem no_groups_failure:
  assumes "tdms_open ev src = Inr []"
  shows "convert_tdms_file ev src w =
     ((False, ''No groups found in TDMS file'', []), say (ProcessingLine (path_name src)) w)"
  using assms by (simp add: convert_tdms_file_def convert_body_def Let_def)

theorem no_groups_failure_witness:
  "tdms_open demo_env [''x.tdms''] = Inr [] \<and>
   convert_tdms_file demo_env [''x.tdms''] empty_world =
     ((False, ''No groups found in TDMS file'', []), say (ProcessingLine (path_name [''x.tdms''])) empty_world)"
proof -
  have a: "tdms_open demo_env [''x.tdms''] = Inr []" by (simp add: demo_env_def)
  show ?thesis by (rule conjI[OF a no_groups_failure[OF a]])
qed

text \<open>The message is not the text \<open>no groups found\<close> the claim quotes.\<close>

theorem no_groups_message_counterexample:
  "tdms_open demo_env [''x.tdms''] = Inr [] \<and>
   fst (convert_tdms_file demo_env [''x.tdms''] empty_world) \<noteq> (False, ''no groups found'', [])"
  by (simp add: demo_env_def convert_tdms_file_def convert_body_def Let_def)

subsection \<open>C4: an exception in the second of three groups\<close>

text \<open>
  Claim C4, as amended. For a source file with three groups where group 1 is converted
  and an exception is raised while group 2 is converted, the result is failure and the
  created-files list holds the output path of group 1 when group 1 has rows (nothing
  otherwise); that file holds the complete table of group 1 provided group 2 has another
  output path; group 3 is not processed and no other file is touched. The output path of
  group 2 is not listed. If the exception is raised while group 2 is materialized or by
  the write of segment 0, nothing has been written for group 2; if it is raised by the
  write of segment \<open>k \<ge> 1\<close>, the output file of group 2 stays on disk as it is then:
  the header line and the rows of the first \<open>k\<close> segments.
\<close>

theorem failure_in_second_group:
  assumes op: "tdms_open ev src = Inr [g1, g2, g3]"
      and first: "fst (convert_groups ev src 1 3 [g1] [] (say (ProcessingLine (path_name src)) w)) = None"
      and second: "fst (convert_groups ev src 1 3 [g1, g2] [] (say (ProcessingLine (path_name src)) w)) = Some e"
  shows "\<exists>w'. convert_tdms_file ev src w =
       ((False, ''Error converting '' @ path_name src @ '': '' @ exn_str e,
         if has_rows g1 then [path_str (group_dest src g1)] else []), w') \<and>
     (has_rows g1 \<and> group_dest src g1 \<noteq> group_dest src g2 \<longrightarrow>
        disk w' (group_dest src g1) = Some (full_csv g1)) \<and>
     (unreadable g2 = Some e \<and> disk w' = written_disk src [g1] (disk w) \<or>
      unreadable g2 = None \<and> has_rows g2 \<and>
        (\<exists>k<101. write_fault ev (writes w + (if has_rows g1 then 101 else 0) + k) = Some e \<and>
           disk w' = (if k = 0 then written_disk src [g1] (disk w)
                      else (written_disk src [g1] (disk w))(group_dest src g2 \<mapsto> partial_csv g2 k)))) \<and>
     (\<forall>p. p \<noteq> group_dest src g1 \<and> p \<noteq> group_dest src g2 \<longrightarrow> disk w' p = disk w p)"
proof -
  let ?w0 = "say (ProcessingLine (path_name src)) w"
  obtain r1 c1 w1 where s1: "convert_group ev src 1 3 g1 [] ?w0 = (r1, c1, w1)"
    by (cases "convert_group ev src 1 3 g1 [] ?w0")
  have r1: "r1 = None" using first s1 by (cases r1) simp_all
  have p: "convert_groups ev src 1 3 [g1] [] ?w0 = (None, c1, w1)" using s1 r1 by simp
  obtain r2 c2 w2 where s2: "convert_group ev src (Suc 1) 3 g2 c1 w1 = (r2, c2, w2)"
    by (cases "convert_group ev src (Suc 1) 3 g2 c1 w1")
  have r2: "r2 = Some e" using second s1 r1 s2 by (cases r2) simp_all
  have f: "convert_group ev src (Suc 1) 3 g2 c1 w1 = (Some e, c2, w2)" using s2 r2 by simp
  have run: "convert_groups ev src 1 (length [g1, g2, g3]) [g1, g2, g3] [] ?w0 = (Some e, c2, w2)"
    using s1 r1 f by (simp add: numeral_3_eq_3)
  have body: "convert_body ev src w = (Raised e, c2, w2)"
    using op run by (simp add: convert_body_def Let_def)
  have d0: "disk ?w0 = disk w" and k0: "writes ?w0 = writes w" by (simp_all add: say_def)
  from failed_group_disk[OF p f, unfolded d0 k0]
  have cf: "c2 = map (\<lambda>h. path_str (group_dest src h)) (filter has_rows [g1])"
    and alt: "unreadable g2 = Some e \<and> disk w2 = written_disk src [g1] (disk w) \<or>
      unreadable g2 = None \<and> has_rows g2 \<and>
        (\<exists>k<101. write_fault ev (writes w + 101 * length (filter has_rows [g1]) + k) = Some e \<and>
           disk w2 = (if k = 0 then written_disk src [g1] (disk w)
                      else (written_disk src [g1] (disk w))(group_dest src g2 \<mapsto> partial_csv g2 k)))"
    by blast+
  have len: "101 * length (filter has_rows [g1]) = (if has_rows g1 then 101 else 0)" by simp
  have c2: "c2 = (if has_rows g1 then [path_str (group_dest src g1)] else [])"
    unfolding cf by simp
  let ?w' = "say (ErrorLine (''Error converting '' @ path_name src @ '': '' @ exn_str e)) w2"
  have res: "convert_tdms_file ev src w =
       ((False, ''Error converting '' @ path_name src @ '': '' @ exn_str e,
         if has_rows g1 then [path_str (group_dest src g1)] else []), ?w')"
    using convert_tdms_file_Raised[OF body] c2 by simp
  have dw: "disk ?w' = disk w2" by (simp add: say_def)
  have cases_k: "\<exists>k. disk w2 = (if k = 0 then written_disk src [g1] (disk w)
                      else (written_disk src [g1] (disk w))(group_dest src g2 \<mapsto> partial_csv g2 k))"
    using alt by (metis (full_types))
  then obtain k where dk: "disk w2 = (if k = 0 then written_disk src [g1] (disk w)
                      else (written_disk src [g1] (disk w))(group_dest src g2 \<mapsto> partial_csv g2 k))"
    by blast
  have keep: "has_rows g1 \<and> group_dest src g1 \<noteq> group_dest src g2 \<longrightarrow>
        disk w2 (group_dest src g1) = Some (full_csv g1)"
    unfolding dk by (cases "k = 0") simp_all
  have other: "\<forall>p. p \<noteq> group_dest src g1 \<and> p \<noteq> group_dest src g2 \<longrightarrow> disk w2 p = disk w p"
    unfolding dk by (cases "k = 0") simp_all
  have alt2: "unreadable g2 = Some e \<and> disk ?w' = written_disk src [g1] (disk w) \<or>
      unreadable g2 = None \<and> has_rows g2 \<and>
        (\<exists>k<101. write_fault ev (writes w + (if has_rows g1 then 101 else 0) + k) = Some e \<and>
           disk ?w' = (if k = 0 then written_disk src [g1] (disk w)
                      else (written_disk src [g1] (disk w))(group_dest src g2 \<mapsto> partial_csv g2 k)))"
    using alt unfolding dw len .
  show ?thesis
    using res keep other alt2 unfolding dw[symmetric] by (intro exI[of _ ?w']) blast
qed


theorem failure_in_second_group_witness:
  "tdms_open three_group_env [''d'', ''x.tdms''] = Inr [group_A, group_B, group_C] \<and>
   fst (convert_groups three_group_env [''d'', ''x.tdms''] 1 3 [group_A] [] (say (ProcessingLine (path_name [''d'', ''x.tdms''])) empty_world)) = None \<and>
   fst (convert_groups three_group_env [''d'', ''x.tdms''] 1 3 [group_A, group_B] [] (say (ProcessingLine (path_name [''d'', ''x.tdms''])) empty_world)) = Some (OSError ''No space left on device'') \<and>
   (\<exists>w'. convert_tdms_file three_group_env [''d'', ''x.tdms''] empty_world =
       ((False, ''Error converting '' @ path_name [''d'', ''x.tdms''] @ '': '' @ exn_str (OSError ''No space left on device''),
         if has_rows group_A then [path_str (group_dest [''d'', ''x.tdms''] group_A)] else []), w') \<and>
     (has_rows group_A \<and> group_dest [''d'', ''x.tdms''] group_A \<noteq> group_dest [''d'', ''x.tdms''] group_B \<longrightarrow>
        disk w' (group_dest [''d'', ''x.tdms''] group_A) = Some (full_csv group_A)) \<and>
     (unreadable group_B = Some (OSError ''No space left on device'') \<and> disk w' = written_disk [''d'', ''x.tdms''] [group_A] (disk empty_world) \<or>
      unreadable group_B = None \<and> has_rows group_B \<and>
        (\<exists>k<101. write_fault three_group_env (writes empty_world + (if has_rows group_A then 101 else 0) + k) = Some (OSError ''No space left on device'') \<and>
           disk w' = (if k = 0 then written_disk [''d'', ''x.tdms''] [group_A] (disk empty_world)
                      else (written_disk [''d'', ''x.tdms''] [group_A] (disk empty_world))(group_dest [''d'', ''x.tdms''] group_B \<mapsto> partial_csv group_B k)))) \<and>
     (\<forall>p. p \<noteq> group_dest [''d'', ''x.tdms''] group_A \<and> p \<noteq> group_dest [''d'', ''x.tdms''] group_B \<longrightarrow> disk w' p = disk empty_world p))"
proof -
  have a: "tdms_open three_group_env [''d'', ''x.tdms''] = Inr [group_A, group_B, group_C]"
    by (simp add: three_group_env_def)
  have b: "fst (convert_groups three_group_env [''d'', ''x.tdms''] 1 3 [group_A] [] (say (ProcessingLine (path_name [''d'', ''x.tdms''])) empty_world)) = None"
    by code_simp
  have c: "fst (convert_groups three_group_env [''d'', ''x.tdms''] 1 3 [group_A, group_B] [] (say (ProcessingLine (path_name [''d'', ''x.tdms''])) empty_world)) = Some (OSError ''No space left on device'')"
    by code_simp
  show ?thesis by (intro conjI a b c failure_in_second_group[OF a b c])
qed

text \<open>
  The claim as stated (no partial output file for group 2) fails: when the second write
  of group 2 raises, the file of group 2 is on disk with the header and one of its two rows.
\<close>

theorem partial_second_output_counterexample:
  "tdms_open three_group_env [''d'', ''x.tdms''] = Inr [group_A, group_B, group_C] \<and>
   fst (convert_groups three_group_env [''d'', ''x.tdms''] 1 3 [group_A] []
          (say (ProcessingLine ''x.tdms'') empty_world)) = None \<and>
   fst (convert_groups three_group_env [''d'', ''x.tdms''] 1 3 [group_A, group_B] []
          (say (ProcessingLine ''x.tdms'') empty_world)) = Some (OSError ''No space left on device'') \<and>
   fst (convert_tdms_file three_group_env [''d'', ''x.tdms''] empty_world)
     = (False, ''Error converting x.tdms: No space left on device'', [''d/x_A.csv'']) \<and>
   disk (snd (convert_tdms_file three_group_env [''d'', ''x.tdms''] empty_world))
        (group_dest [''d'', ''x.tdms''] group_B)
     = Some [HeaderLine [''v''], DataLine 0 [Some 3]] \<and>
   full_csv group_B = [HeaderLine [''v''], DataLine 0 [Some 3], DataLine 1 [Some 4]]"
  by (intro conjI; code_simp)

subsection \<open>C6: the two precondition errors of discovery\<close>



subsection \<open>C5: what discovery returns\<close>

text \<open>
  Discovery returns exactly the paths of the entries below the root, at any depth, whose
  name ends with \<open>.tdms\<close>, whatever their kind.
\<close>

lemma matching_simps:
  "matching [] = {}"
  "matching (x # xs) = (if fnmatch_tdms (last (fst x)) then {fst x} else {}) \<union> matching xs"
  "matching (xs @ ys) = matching xs \<union> matching ys"
  by (auto simp: matching_def)

lemma set_select_from:
  "set (select_from (p, es)) = matching (map (\<lambda>e. (p @ [fst e], snd e)) es)"
  unfolding select_from_def by (induction es) (simp_all add: matching_simps)

lemma entries_in_split:
  "matching (entries_in p es) = matching (map (\<lambda>e. (p @ [fst e], snd e)) es) \<union> matching (below p es)"
  by (induction es) (auto simp: matching_simps)

lemma rglob_walk:
  "set (concat (map select_from (iterate_directories p t))) = matching (entries_under p t)"
  "set (concat (map select_from (iterate_entries p es))) = matching (below p es)"
proof (induction p t and p es rule: iterate_directories_iterate_entries.induct)
  case (1 p)
  then show ?case by (simp add: matching_simps)
next
  case (2 p es)
  then show ?case by (simp add: set_select_from entries_in_split)
next
  case (3 p)
  then show ?case by (simp add: matching_simps)
next
  case (4 p e es)
  then show ?case by (simp add: matching_simps)
qed

lemma rglob_tdms_entries:
  "set (rglob_tdms p t) = fst ` {x \<in> set (entries_under p t). suffix ''.tdms'' (last (fst x))}"
  using rglob_walk(1)[of p t] by (simp add: rglob_tdms_def matching_def fnmatch_tdms_def)

lemma find_tdms_files_entries:
  assumes "stat ev root_directory = Some (Dir es)"
  shows "\<exists>tdms_files. find_tdms_files ev root_directory = Inr tdms_files \<and>
     set tdms_files =
       fst ` {x \<in> set (entries_under (Path root_directory) (Dir es)). suffix ''.tdms'' (last (fst x))}"
  using assms rglob_tdms_entries[of "Path root_directory" "Dir es"]
  by (simp add: find_tdms_files_def rglob_def path_exists_def path_is_dir_def)

text \<open>
  Claim C5 says that discovery returns exactly the paths of the files under the root whose
  name ends with \<open>.tdms\<close>. \<^verbatim>\<open>rglob\<close> matches names only: for the tree below it
  also returns the directory \<open>data/run.tdms\<close> (and, as claimed, the files at any
  depth, and not the file whose extension is in capitals).
\<close>

theorem discovery_returns_directory:
  "stat tree_env ''data'' =
     Some (Dir [(''run.tdms'', Dir [(''notes.txt'', File)]), (''a.tdms'', File),
                (''sub'', Dir [(''b.tdms'', File), (''c.TDMS'', File)])]) \<and>
   find_tdms_files tree_env ''data'' =
     Inr [[''data'', ''run.tdms''], [''data'', ''a.tdms''], [''data'', ''sub'', ''b.tdms'']]"
  by (intro conjI; code_simp)

subsection \<open>C9: the exit status\<close>




subsection \<open>C8: the counters of the batch loop\<close>

text \<open>
  The three counters are a fold of the per-file results: succeeded plus failed is the number
  of files, and the count of created CSV files sums the created-files lists of the
  successful conversions only.
\<close>

lemma batch_loop_counters:
  "fst (batch_loop ev i t files (s, f, c) w) =
     (s + length (filter fst (batch_results ev i t files w)),
      f + length (filter (\<lambda>r. \<not> fst r) (batch_results ev i t files w)),
      c + sum_list (map (\<lambda>r. length (snd (snd r))) (filter fst (batch_results ev i t files w))))"
proof (induction files arbitrary: i s f c w)
  case Nil then show ?case by simp
next
  case (Cons tf files)
  obtain ok msg cr w2 where r:
    "convert_tdms_file ev tf (say (ConvertingFileLine i t (path_str tf)) w) = ((ok, msg, cr), w2)"
    by (metis prod.exhaust)
  show ?case
  proof (cases ok)
    case True
    then show ?thesis using r Cons.IH by (simp add: Let_def)
  next
    case False
    then show ?thesis using r Cons.IH by (simp add: Let_def)
  qed
qed

lemma batch_results_length: "length (batch_results ev i t files w) = length files"
  by (induction files arbitrary: i w) (auto split: prod.splits)

lemma batch_loop_totals:
  assumes "fst (batch_loop ev i t files (0, 0, 0) w) = (s, f, c)"
  shows "s + f = length files"
    and "c = sum_list (map (\<lambda>r. length (snd (snd r))) (filter fst (batch_results ev i t files w)))"
proof -
  have "length (filter fst (batch_results ev i t files w)) +
        length (filter (\<lambda>r. \<not> fst r) (batch_results ev i t files w)) = length (batch_results ev i t files w)"
    by (rule sum_length_filter_compl)
  then show "s + f = length files"
    using assms by (simp add: batch_loop_counters batch_results_length)
  show "c = sum_list (map (\<lambda>r. length (snd (snd r))) (filter fst (batch_results ev i t files w)))"
    using assms by (simp add: batch_loop_counters)
qed

text \<open>
  Claim C8 says that the total of created outputs includes the created-files lists of
  failed conversions. For one file whose second group fails after the first was written,
  the conversion returns a list of one created file, the file is on disk, and the summary
  reports 0 created CSV files.
\<close>

theorem failed_outputs_not_counted:
  "find_tdms_files batch_env ''data'' = Inr [[''data'', ''x.tdms'']] \<and>
   batch_results batch_env 1 1 [[''data'', ''x.tdms'']] empty_world
     = [(False, ''Error converting x.tdms: No space left on device'', [''data/x_A.csv''])] \<and>
   fst (batch_loop batch_env 1 1 [[''data'', ''x.tdms'']] (0, 0, 0) empty_world) = (0, 1, 0) \<and>
   console (snd (batch_convert_tdms_files batch_env ''data'' empty_world)) =
     [BannerLine, RuleLine, SearchingLine ''data'', FoundLine 1, BlankLine,
      ConvertingFileLine 1 1 ''data/x.tdms'', ProcessingLine ''x.tdms'',
      ConvertingGroupLine 1 3 ''A'', CreatedLine ''x_A.csv'', ConvertingGroupLine 2 3 ''B'',
      ErrorLine ''Error converting x.tdms: No space left on device'',
      FailedLine ''Error converting x.tdms: No space left on device'', BlankLine,
      RuleLine, SummaryTitleLine, RuleLine, TotalFilesLine 1, SuccessfulLine 0,
      FailedCountLine 1, TotalCsvLine 0, NoneConvertedLine] \<and>
   disk (snd (batch_convert_tdms_files batch_env ''data'' empty_world)) [''data'', ''x_A.csv'']
     = Some [HeaderLine [''v''], DataLine 0 [Some 1], DataLine 1 [Some 2]]"
  by (intro conjI; code_simp)

end
